theory Spec2Isabelle
  imports Complex_Main "HOL-Library.AList"
begin

section \<open>Geometry\<close>

text \<open>
  Bounding boxes are the 4-tuples \<open>(x0, y0, x1, y1)\<close> of PyMuPDF, with the y axis pointing
  down. Python's floats are idealised as reals: rounding, infinities and NaN are left out.
\<close>

type_synonym bbox = "real \<times> real \<times> real \<times> real"

text \<open>\<^verbatim>\<open>def _w(bb): return max(0.0, bb[2] - bb[0])\<close>\<close>

definition bb_w :: "bbox \<Rightarrow> real" where
  "bb_w bb = (case bb of (x0, y0, x1, y1) \<Rightarrow> max 0 (x1 - x0))"

text \<open>\<^verbatim>\<open>def _h(bb): return max(0.0, bb[3] - bb[1])\<close>\<close>

definition bb_h :: "bbox \<Rightarrow> real" where
  "bb_h bb = (case bb of (x0, y0, x1, y1) \<Rightarrow> max 0 (y1 - y0))"

section \<open>The table area planner (parser\_utils.\_areas\_from\_caption\_bbox)\<close>

text \<open>
  The source renders each area as the string \<^verbatim>\<open>f"{ax0},{ay0},{ax1},{ay1}"\<close>; the model keeps
  the four numbers of the descriptor.

  \<open>to_camelot\<close> is the inner function of the source: conversion A flips the y axis
  (\<open>y' = page_h - y\<close>), conversion B passes the rectangle through.
\<close>

definition to_camelot :: "real \<Rightarrow> bbox \<Rightarrow> bbox \<times> bbox" where
  "to_camelot page_h a =
     (case a of (ax0, ay0, ax1, ay1) \<Rightarrow>
        ((ax0, page_h - ay1, ax1, page_h - ay0), (ax0, ay0, ax1, ay1)))"

definition areas_from_caption_bbox :: "bbox \<Rightarrow> real \<Rightarrow> real \<Rightarrow> real \<Rightarrow> bbox list" where
  "areas_from_caption_bbox cbx page_w page_h pad =
     (case cbx of (x0, y0, x1, y1) \<Rightarrow>
        let above = (0 + pad, 0 + pad, page_w - pad, max 0 (y0 - pad));
            below = (0 + pad, min page_h (y1 + pad), page_w - pad, page_h - pad);
            (A1, B1) = to_camelot page_h above;
            (A2, B2) = to_camelot page_h below
        in [A1, B1, A2, B2])"






section \<open>Python values, strings and the caption patterns\<close>

text \<open>
  The values a layout block can hold under \<^verbatim>\<open>"xref"\<close> and \<^verbatim>\<open>"number"\<close>: \<^verbatim>\<open>None\<close> (also
  for a missing key, as \<^verbatim>\<open>dict.get\<close> returns it), an integer, or something else (a string).
\<close>

datatype pyval = PNone | PInt int | PStr string

fun truthy :: "pyval \<Rightarrow> bool" where
  "truthy PNone = False"
| "truthy (PInt n) = (n \<noteq> 0)"
| "truthy (PStr s) = (s \<noteq> [])"

text \<open>\<^verbatim>\<open>a or b\<close>\<close>

definition py_or :: "pyval \<Rightarrow> pyval \<Rightarrow> pyval" where
  "py_or a b = (if truthy a then a else b)"

text \<open>
  Text is ASCII: a \<open>string\<close> is a list of bytes, so the Unicode digits, spaces and case
  pairs that Python's \<^verbatim>\<open>str\<close> methods and \<^verbatim>\<open>re\<close> also accept are outside the model.
\<close>

definition is_digit :: "char \<Rightarrow> bool" where
  "is_digit c = (48 \<le> (of_char c :: nat) \<and> (of_char c :: nat) \<le> 57)"

definition is_space :: "char \<Rightarrow> bool" where
  "is_space c = (let n = (of_char c :: nat) in (9 \<le> n \<and> n \<le> 13) \<or> (28 \<le> n \<and> n \<le> 32))"

definition lower :: "char \<Rightarrow> char" where
  "lower c = (let n = (of_char c :: nat) in if 65 \<le> n \<and> n \<le> 90 then char_of (n + 32) else c)"

text \<open>\<^verbatim>\<open>s.strip()\<close>\<close>

definition strip :: "string \<Rightarrow> string" where
  "strip s = rev (dropWhile is_space (rev (dropWhile is_space s)))"

text \<open>
  Matching a literal at the start of the subject, ignoring case (\<^verbatim>\<open>re.I\<close>); the literal is
  given in lower case and the rest of the subject is returned.
\<close>

fun ci_prefix :: "string \<Rightarrow> string \<Rightarrow> string option" where
  "ci_prefix [] s = Some s"
| "ci_prefix (p # ps) [] = None"
| "ci_prefix (p # ps) (c # cs) = (if lower c = p then ci_prefix ps cs else None)"

text \<open>\<^verbatim>\<open>\s*\d+[\.:]?\<close> at the start of the subject: spaces, then at least one digit.\<close>

definition spaces_digits :: "string \<Rightarrow> bool" where
  "spaces_digits s = (case dropWhile is_space s of [] \<Rightarrow> False | c # cs \<Rightarrow> is_digit c)"

text \<open>
  \<^verbatim>\<open>re.compile(r"^(Long|Short\.?)\s*\d+[\.:]?", re.I).match(text)\<close>, as a truth value: the
  first alternative is tried first, then the second with and without its optional dot.
\<close>

definition caption_re_match :: "string \<Rightarrow> string \<Rightarrow> string \<Rightarrow> bool" where
  "caption_re_match long short s =
     ((case ci_prefix long s of Some r \<Rightarrow> spaces_digits r | None \<Rightarrow> False) \<or>
      (case ci_prefix short s of
         Some r \<Rightarrow>
           (case r of
              c # cs \<Rightarrow> (c = CHR ''.'' \<and> spaces_digits cs) \<or> spaces_digits r
            | [] \<Rightarrow> False)
       | None \<Rightarrow> False))"

text \<open>\<^verbatim>\<open>_CAP_RE = re.compile(r"^(Figure|Fig\.?)\s*\d+[\.:]?", re.I)\<close>\<close>

definition CAP_RE_match :: "string \<Rightarrow> bool" where
  "CAP_RE_match s = caption_re_match ''figure'' ''fig'' s"

text \<open>\<^verbatim>\<open>CAPTION_RE = re.compile(r'^(Table|Tab\.?)\s*\d+[\.:]?', re.I)\<close>\<close>

definition CAPTION_RE_match :: "string \<Rightarrow> bool" where
  "CAPTION_RE_match s = caption_re_match ''table'' ''tab'' s"

section \<open>Files and the page's collaborators\<close>

text \<open>
  Output paths, by the pieces the source formats them from:
  \<^item> \<open>XObjectPath img_dir stem pno xref ext\<close> is \<^verbatim>\<open>img_dir / f"{stem}_p{pno}_x{xref}.{ext}"\<close>;
  \<^item> \<open>FigurePath img_dir stem pno n\<close> is \<^verbatim>\<open>img_dir / f"{stem}_p{pno}_fig{n}.png"\<close>;
  \<^item> \<open>CropPath img_dir stem pno n\<close> is \<^verbatim>\<open>img_dir / f"{stem}_p{pno}_blk{n}_crop.png"\<close>;
  \<^item> \<open>CsvPath workdir stem pno i flavor\<close> is \<^verbatim>\<open>workdir / f"{stem}_p{pno}_table{i}_{flavor}.csv"\<close>.
  As strings they are never empty, so a path is truthy exactly when it is not \<^verbatim>\<open>None\<close>.
\<close>

datatype path =
    XObjectPath string string int int string
  | FigurePath string string int nat
  | CropPath string string int nat
  | CsvPath string string int nat string

text \<open>The two messages the figure grouper prints, with the \<^verbatim>\<open>repr\<close> of the exception.\<close>

datatype log_msg =
    RasterFailUnion int string
  | RasterFailLeftover int nat string

text \<open>
  What PyMuPDF does for a page. The calls with an effect (reading the document, writing a
  file, rendering, printing) take the state of the outside world \<open>'w\<close> and return the next
  one; a raised \<^verbatim>\<open>Exception\<close> is the \<open>Inl\<close> or \<open>Some\<close> result, carrying its \<^verbatim>\<open>repr\<close>.
  \<^item> \<open>get_images\<close>: \<^verbatim>\<open>page.get_images(full=True)\<close>, the \<open>(xref, smask)\<close> of each entry;
  \<^item> \<open>extract_image\<close>: \<^verbatim>\<open>doc.extract_image(xref)\<close>, giving the \<^verbatim>\<open>"ext"\<close> and \<^verbatim>\<open>"image"\<close>
    entries of the result where present;
  \<^item> \<open>open_wb\<close>, \<open>write_bytes\<close>: \<^verbatim>\<open>open(out_path, "wb")\<close> and \<^verbatim>\<open>f.write(...)\<close>;
  \<^item> \<open>page_rect\<close>, \<open>rect_and\<close>, \<open>rect_is_empty\<close>, \<open>rect_width\<close>, \<open>rect_height\<close>:
    \<^verbatim>\<open>page.rect\<close> and \<^verbatim>\<open>fitz.Rect\<close>'s \<^verbatim>\<open>&\<close>, \<^verbatim>\<open>is_empty\<close>, \<^verbatim>\<open>width\<close>, \<^verbatim>\<open>height\<close>;
  \<^item> \<open>get_pixmap\<close>, \<open>pix_save\<close>: \<^verbatim>\<open>page.get_pixmap(matrix=Matrix(s, s), clip=rect, alpha=False)\<close>
    and \<^verbatim>\<open>pix.save(path)\<close>;
  \<^item> \<open>print\<close>: \<^verbatim>\<open>print\<close>.
\<close>

record 'w page_env =
  get_images :: "(int \<times> int) list"
  extract_image :: "'w \<Rightarrow> int \<Rightarrow> (string + string option \<times> string option) \<times> 'w"
  open_wb :: "'w \<Rightarrow> path \<Rightarrow> string option \<times> 'w"
  write_bytes :: "'w \<Rightarrow> path \<Rightarrow> string \<Rightarrow> string option \<times> 'w"
  page_rect :: bbox
  rect_and :: "bbox \<Rightarrow> bbox \<Rightarrow> bbox"
  rect_is_empty :: "bbox \<Rightarrow> bool"
  rect_width :: "bbox \<Rightarrow> real"
  rect_height :: "bbox \<Rightarrow> real"
  get_pixmap :: "'w \<Rightarrow> real \<Rightarrow> bbox \<Rightarrow> (string + string) \<times> 'w"
  pix_save :: "'w \<Rightarrow> string \<Rightarrow> path \<Rightarrow> string option \<times> 'w"
  print :: "'w \<Rightarrow> log_msg \<Rightarrow> 'w"

section \<open>parser\_utils: exporting bitmaps, safe rectangles, raster crops\<close>

text \<open>
  The body of the \<^verbatim>\<open>try\<close> in \<^verbatim>\<open>_export_page_images\<close> for one xref: the path written, or
  \<open>None\<close> where anything raised (\<^verbatim>\<open>except Exception: paths[xref] = None\<close>). The file is
  opened before \<^verbatim>\<open>base["image"]\<close> is read, so a missing image is a \<^verbatim>\<open>KeyError\<close> after the
  open.
\<close>

definition export_one :: "'w page_env \<Rightarrow> string \<Rightarrow> string \<Rightarrow> int \<Rightarrow> int \<Rightarrow> 'w \<Rightarrow> path option \<times> 'w" where
  "export_one env img_dir stem pno xref w =
     (case extract_image env w xref of
        (Inl e, w1) \<Rightarrow> (None, w1)
      | (Inr (ext_opt, image_opt), w1) \<Rightarrow>
          let ext = (case ext_opt of None \<Rightarrow> ''png'' | Some x \<Rightarrow> x);
              out_path = XObjectPath img_dir stem pno xref ext
          in (case open_wb env w1 out_path of
                (Some e, w2) \<Rightarrow> (None, w2)
              | (None, w2) \<Rightarrow>
                  (case image_opt of
                     None \<Rightarrow> (None, w2)
                   | Some bytes \<Rightarrow>
                       (case write_bytes env w2 out_path bytes of
                          (Some e, w3) \<Rightarrow> (None, w3)
                        | (None, w3) \<Rightarrow> (Some out_path, w3)))))"

text \<open>
  The loop of \<^verbatim>\<open>_export_page_images\<close> over \<^verbatim>\<open>page.get_images(full=True)\<close>; \<open>paths\<close> is the
  dictionary (in insertion order) and \<open>seen\<close> the set of xrefs handled.
\<close>

fun export_loop ::
  "'w page_env \<Rightarrow> string \<Rightarrow> string \<Rightarrow> int \<Rightarrow> (int \<times> int) list \<Rightarrow>
   (int \<times> path option) list \<Rightarrow> int set \<Rightarrow> 'w \<Rightarrow> (int \<times> path option) list \<times> 'w" where
  "export_loop env img_dir stem pno [] paths seen w = (paths, w)"
| "export_loop env img_dir stem pno ((xref, smask) # infos) paths seen w =
     (if xref \<in> seen \<or> smask > 0 then export_loop env img_dir stem pno infos paths seen w
      else
        (case export_one env img_dir stem pno xref w of
           (p, w1) \<Rightarrow>
             export_loop env img_dir stem pno infos (AList.update xref p paths)
               (insert xref seen) w1))"

definition export_page_images ::
  "'w page_env \<Rightarrow> string \<Rightarrow> string \<Rightarrow> int \<Rightarrow> 'w \<Rightarrow> (int \<times> path option) list \<times> 'w" where
  "export_page_images env img_dir stem pno w =
     export_loop env img_dir stem pno (get_images env) [] {} w"

text \<open>\<^verbatim>\<open>_safe_rect(page, bbox, pad=0.5)\<close>\<close>

definition safe_rect :: "'w page_env \<Rightarrow> bbox \<Rightarrow> real \<Rightarrow> bbox option" where
  "safe_rect env bb pad =
     (let r = rect_and env bb (page_rect env) in
      if rect_is_empty env r \<or> rect_width env r \<le> 0 \<or> rect_height env r \<le> 0 then None
      else
        (case r of (x0, y0, x1, y1) \<Rightarrow>
           (case page_rect env of (px0, py0, px1, py1) \<Rightarrow>
              Some (max px0 (x0 - pad), max py0 (y0 - pad),
                    min px1 (x1 + pad), min py1 (y1 + pad)))))"

text \<open>\<^verbatim>\<open>_raster_crop(page, rect, dpi, out_path)\<close>: the exception it raises, if any.\<close>

definition raster_crop ::
  "'w page_env \<Rightarrow> 'w \<Rightarrow> bbox \<Rightarrow> int \<Rightarrow> path \<Rightarrow> string option \<times> 'w" where
  "raster_crop env w rect dpi out_path =
     (case get_pixmap env w (real_of_int dpi / 72) rect of
        (Inl e, w1) \<Rightarrow> (Some e, w1)
      | (Inr pix, w1) \<Rightarrow> pix_save env w1 pix out_path)"

section \<open>The figure grouper (parser\_extractors.extract\_image\_blocks)\<close>

text \<open>
  A block of \<^verbatim>\<open>pdict["blocks"]\<close>, by what the source reads of it: \<^verbatim>\<open>block.get("type", 0)\<close>,
  \<^verbatim>\<open>tuple(block.get("bbox", (0, 0, 0, 0)))\<close>, \<^verbatim>\<open>block.get("xref")\<close>, \<^verbatim>\<open>block.get("number")\<close>,
  \<^verbatim>\<open>block.get("image")\<close> and the span texts of \<^verbatim>\<open>block.get("lines", [])\<close>, line by line.
  \<open>b_image\<close> is \<open>Some v\<close> when the image entry is a dictionary, \<open>v\<close> being its
  \<^verbatim>\<open>.get("xref")\<close>, and \<open>None\<close> for the bytes PyMuPDF stores there or a missing entry.
\<close>

record block =
  b_type :: int
  b_bbox :: bbox
  b_xref :: pyval
  b_number :: pyval
  b_image :: "pyval option"
  b_lines :: "string list list"

text \<open>The keyword arguments of \<^verbatim>\<open>extract_image_blocks\<close>.\<close>

record config =
  pno :: int
  img_dir :: string
  stem :: string
  raster_fallback :: bool
  raster_dpi :: int
  min_img_area :: real
  min_cap_overlap :: real
  max_v_gap :: real
  width_tol :: real

text \<open>The defaults of the signature, for a page number, directory and stem.\<close>

definition default_config :: "int \<Rightarrow> string \<Rightarrow> string \<Rightarrow> config" where
  "default_config n dir st =
     \<lparr>pno = n, img_dir = dir, stem = st, raster_fallback = True, raster_dpi = 220,
      min_img_area = 80 * 80, min_cap_overlap = 35 / 100, max_v_gap = 60,
      width_tol = 30 / 100\<rparr>"

text \<open>An entry of \<^verbatim>\<open>layout_imgs\<close>: \<^verbatim>\<open>{"bbox": bb, "xref": xref, "image_path": image_path}\<close>.\<close>

record layout_img =
  li_bbox :: bbox
  li_xref :: pyval
  li_image_path :: "path option"

text \<open>
  A figure. Its \<^verbatim>\<open>"parts"\<close> are references to entries of \<^verbatim>\<open>layout_imgs\<close>: the model keeps
  the position of each entry in that list, which identifies the object, and \<open>part_values\<close>
  reads the entries themselves.
\<close>

record figure =
  f_page_no :: int
  f_caption :: "string option"
  f_bbox :: bbox
  f_image_path :: "path option"
  f_parts :: "nat list"

definition part_values :: "layout_img list \<Rightarrow> figure \<Rightarrow> layout_img list" where
  "part_values layout_imgs f = map (\<lambda>i. layout_imgs ! i) (f_parts f)"

record image_stats =
  layout_blocks :: nat
  xobjects_found :: nat
  xobjects_exported :: nat
  figures :: nat
  with_caption :: nat
  leftovers :: nat

record caption =
  c_text :: string
  c_bbox :: bbox

subsection \<open>Step 1: the layout image blocks\<close>

text \<open>
  \<^verbatim>\<open>xref = block.get("xref") or block.get("number")\<close>, replaced by the image dictionary's
  xref when it is not an integer and the image entry is a dictionary.
\<close>

definition block_xref :: "block \<Rightarrow> pyval" where
  "block_xref b =
     (let x = py_or (b_xref b) (b_number b) in
      (case x of
         PInt n \<Rightarrow> x
       | _ \<Rightarrow> (case b_image b of Some v \<Rightarrow> v | None \<Rightarrow> x)))"

text \<open>\<^verbatim>\<open>paths_by_xref.get(xref) if isinstance(xref, int) else None\<close>\<close>

definition lookup_path :: "(int \<times> path option) list \<Rightarrow> pyval \<Rightarrow> path option" where
  "lookup_path paths x =
     (case x of
        PInt n \<Rightarrow> (case map_of paths n of Some p \<Rightarrow> p | None \<Rightarrow> None)
      | _ \<Rightarrow> None)"

definition layout_img_of :: "(int \<times> path option) list \<Rightarrow> block \<Rightarrow> layout_img" where
  "layout_img_of paths b =
     \<lparr>li_bbox = b_bbox b, li_xref = block_xref b,
      li_image_path = lookup_path paths (block_xref b)\<rparr>"

text \<open>The test of lines 87 to 91: an image block whose area is not below the minimum.\<close>

definition enters_grouping :: "real \<Rightarrow> block \<Rightarrow> bool" where
  "enters_grouping min_area b =
     (if b_type b \<noteq> 1 then False
      else if bb_w (b_bbox b) * bb_h (b_bbox b) < min_area then False
      else True)"

fun collect_layout_imgs ::
  "real \<Rightarrow> (int \<times> path option) list \<Rightarrow> block list \<Rightarrow> layout_img list" where
  "collect_layout_imgs min_area paths [] = []"
| "collect_layout_imgs min_area paths (b # bs) =
     (if enters_grouping min_area b
      then layout_img_of paths b # collect_layout_imgs min_area paths bs
      else collect_layout_imgs min_area paths bs)"

subsection \<open>Step 2: the captions\<close>

definition block_text :: "block \<Rightarrow> string" where
  "block_text b = strip (concat (concat (b_lines b)))"

fun find_captions :: "block list \<Rightarrow> caption list" where
  "find_captions [] = []"
| "find_captions (b # bs) =
     (if b_type b = 0 \<and> CAP_RE_match (block_text b)
      then \<lparr>c_text = block_text b, c_bbox = b_bbox b\<rparr> # find_captions bs
      else find_captions bs)"

subsection \<open>Step 3: grouping the blocks above each caption\<close>

text \<open>\<^verbatim>\<open>cap_w = max(1e-6, _w(cap["bbox"]))\<close>\<close>

definition cap_width :: "bbox \<Rightarrow> real" where
  "cap_width cbb = max (1 / 1000000) (bb_w cbb)"

text \<open>\<^verbatim>\<open>overlap = max(0.0, min(bx1, cx1) - max(bx0, cx0))\<close>\<close>

definition h_overlap :: "bbox \<Rightarrow> bbox \<Rightarrow> real" where
  "h_overlap cbb ibb =
     (case cbb of (cx0, cy0, cx1, cy1) \<Rightarrow>
        (case ibb of (bx0, by0, bx1, by1) \<Rightarrow> max 0 (min bx1 cx1 - max bx0 cx0)))"

text \<open>
  The body of the inner loop (lines 125 to 146) for a block that is not assigned: each
  \<^verbatim>\<open>continue\<close> is a \<open>False\<close>, reaching \<^verbatim>\<open>cand_idxs.append(idx)\<close> is \<open>True\<close>.
\<close>

definition is_candidate :: "config \<Rightarrow> bbox \<Rightarrow> bbox \<Rightarrow> bool" where
  "is_candidate cfg cbb ibb =
     (case cbb of (cx0, cy0, cx1, cy1) \<Rightarrow>
        (case ibb of (bx0, by0, bx1, by1) \<Rightarrow>
           if by1 > cy0 then False
           else if h_overlap cbb ibb / cap_width cbb < min_cap_overlap cfg then False
           else if cy0 - by1 < 0 \<or> cy0 - by1 > max_v_gap cfg then False
           else if \<bar>bb_w ibb - cap_width cbb\<bar> / cap_width cbb > width_tol cfg then False
           else True))"

text \<open>The inner loop over \<^verbatim>\<open>enumerate(layout_imgs)\<close>, from index \<open>idx\<close> on.\<close>

fun cand_loop :: "config \<Rightarrow> nat set \<Rightarrow> bbox \<Rightarrow> nat \<Rightarrow> layout_img list \<Rightarrow> nat list" where
  "cand_loop cfg assigned cbb idx [] = []"
| "cand_loop cfg assigned cbb idx (ib # ibs) =
     (if idx \<in> assigned then cand_loop cfg assigned cbb (Suc idx) ibs
      else if is_candidate cfg cbb (li_bbox ib)
        then idx # cand_loop cfg assigned cbb (Suc idx) ibs
        else cand_loop cfg assigned cbb (Suc idx) ibs)"

definition cand_idxs :: "config \<Rightarrow> nat set \<Rightarrow> layout_img list \<Rightarrow> bbox \<Rightarrow> nat list" where
  "cand_idxs cfg assigned layout_imgs cbb = cand_loop cfg assigned cbb 0 layout_imgs"

text \<open>One step of the union: \<^verbatim>\<open>min(ux0, bx0), min(uy0, by0), max(ux1, bx1), max(uy1, by1)\<close>.\<close>

definition bbox_union :: "bbox \<Rightarrow> bbox \<Rightarrow> bbox" where
  "bbox_union u b =
     (case u of (ux0, uy0, ux1, uy1) \<Rightarrow>
        (case b of (bx0, by0, bx1, by1) \<Rightarrow>
           (min ux0 bx0, min uy0 by0, max ux1 bx1, max uy1 by1)))"

text \<open>The union box of the candidates \<open>i # rest\<close> (lines 152 to 156).\<close>

fun union_loop :: "layout_img list \<Rightarrow> bbox \<Rightarrow> nat list \<Rightarrow> bbox" where
  "union_loop layout_imgs u [] = u"
| "union_loop layout_imgs u (idx # idxs) =
     union_loop layout_imgs (bbox_union u (li_bbox (layout_imgs ! idx))) idxs"

text \<open>The first candidate with an exported bitmap (lines 159 to 165).\<close>

fun rep_path_of :: "layout_img list \<Rightarrow> nat list \<Rightarrow> path option" where
  "rep_path_of layout_imgs [] = None"
| "rep_path_of layout_imgs (idx # idxs) =
     (case li_image_path (layout_imgs ! idx) of
        Some p \<Rightarrow> Some p
      | None \<Rightarrow> rep_path_of layout_imgs idxs)"

text \<open>
  The raster fallback, written twice in the source (lines 168 to 176 for a union box, lines
  195 to 203 for a leftover): when there is no path yet and the fallback is on, the box is
  made safe and rendered to \<open>out_path\<close>; a failure is printed and leaves the path unset.
\<close>

definition rasterize ::
  "'w page_env \<Rightarrow> config \<Rightarrow> bbox \<Rightarrow> path \<Rightarrow> (string \<Rightarrow> log_msg) \<Rightarrow> path option \<Rightarrow> 'w \<Rightarrow>
   path option \<times> 'w" where
  "rasterize env cfg bb out_path msg rep_path w =
     (if rep_path = None \<and> raster_fallback cfg then
        (case safe_rect env bb (1 / 2) of
           None \<Rightarrow> (rep_path, w)
         | Some rect \<Rightarrow>
             (case raster_crop env w rect (raster_dpi cfg) out_path of
                (None, w1) \<Rightarrow> (Some out_path, w1)
              | (Some e, w1) \<Rightarrow> (rep_path, print env w1 (msg e))))
      else (rep_path, w))"

text \<open>
  The loop over the captions (lines 117 to 188), on the set of assigned indices, the figures
  so far and the world.
\<close>

fun caption_loop ::
  "'w page_env \<Rightarrow> config \<Rightarrow> layout_img list \<Rightarrow> caption list \<Rightarrow> nat set \<Rightarrow> figure list \<Rightarrow> 'w \<Rightarrow>
   nat set \<times> figure list \<times> 'w" where
  "caption_loop env cfg layout_imgs [] assigned figs w = (assigned, figs, w)"
| "caption_loop env cfg layout_imgs (cap # caps) assigned figs w =
     (case cand_idxs cfg assigned layout_imgs (c_bbox cap) of
        [] \<Rightarrow> caption_loop env cfg layout_imgs caps assigned figs w
      | i # rest \<Rightarrow>
          let union_bbox = union_loop layout_imgs (li_bbox (layout_imgs ! i)) rest;
              out_path = FigurePath (img_dir cfg) (stem cfg) (pno cfg) (length figs + 1)
          in (case rasterize env cfg union_bbox out_path (RasterFailUnion (pno cfg))
                     (rep_path_of layout_imgs (i # rest)) w of
                (rep_path, w1) \<Rightarrow>
                  caption_loop env cfg layout_imgs caps (assigned \<union> set (i # rest))
                    (figs @ [\<lparr>f_page_no = pno cfg, f_caption = Some (c_text cap),
                              f_bbox = union_bbox, f_image_path = rep_path,
                              f_parts = i # rest\<rparr>])
                    w1))"

subsection \<open>Step 4: the leftovers\<close>

text \<open>\<^verbatim>\<open>leftovers = [i for i in range(len(layout_imgs)) if i not in assigned]\<close>\<close>

definition leftover_idxs :: "nat set \<Rightarrow> layout_img list \<Rightarrow> nat list" where
  "leftover_idxs assigned layout_imgs = filter (\<lambda>i. i \<notin> assigned) [0..<length layout_imgs]"

fun leftover_loop ::
  "'w page_env \<Rightarrow> config \<Rightarrow> layout_img list \<Rightarrow> nat list \<Rightarrow> figure list \<Rightarrow> 'w \<Rightarrow>
   figure list \<times> 'w" where
  "leftover_loop env cfg layout_imgs [] figs w = (figs, w)"
| "leftover_loop env cfg layout_imgs (i # is) figs w =
     (let ib = layout_imgs ! i;
          out_path = CropPath (img_dir cfg) (stem cfg) (pno cfg) (i + 1)
      in (case rasterize env cfg (li_bbox ib) out_path (RasterFailLeftover (pno cfg) (i + 1))
                 (li_image_path ib) w of
            (rep_path, w1) \<Rightarrow>
              leftover_loop env cfg layout_imgs is
                (figs @ [\<lparr>f_page_no = pno cfg, f_caption = None, f_bbox = li_bbox ib,
                          f_image_path = rep_path, f_parts = [i]\<rparr>])
                w1))"

subsection \<open>The whole function\<close>

text \<open>\<^verbatim>\<open>sum(1 for f in figures if f["caption"])\<close>: a caption counts when it is a non-empty string.\<close>

definition count_with_caption :: "figure list \<Rightarrow> nat" where
  "count_with_caption figs =
     length (filter (\<lambda>f. case f_caption f of None \<Rightarrow> False | Some t \<Rightarrow> t \<noteq> []) figs)"

text \<open>\<^verbatim>\<open>sum(1 for v in paths_by_xref.values() if v)\<close>\<close>

definition count_exported :: "(int \<times> path option) list \<Rightarrow> nat" where
  "count_exported paths = length (filter (\<lambda>kv. snd kv \<noteq> None) paths)"

text \<open>
  \<^verbatim>\<open>extract_image_blocks(doc, page, pdict, ...)\<close> on the blocks of \<^verbatim>\<open>pdict\<close>: the figures,
  the stats and the world after the call.
\<close>

definition extract_image_blocks ::
  "'w page_env \<Rightarrow> config \<Rightarrow> block list \<Rightarrow> 'w \<Rightarrow> (figure list \<times> image_stats) \<times> 'w" where
  "extract_image_blocks env cfg blocks w =
     (case export_page_images env (img_dir cfg) (stem cfg) (pno cfg) w of
        (paths_by_xref, w1) \<Rightarrow>
          let layout_imgs = collect_layout_imgs (min_img_area cfg) paths_by_xref blocks;
              captions = find_captions blocks
          in (case caption_loop env cfg layout_imgs captions {} [] w1 of
                (assigned, figs1, w2) \<Rightarrow>
                  let lo = leftover_idxs assigned layout_imgs
                  in (case leftover_loop env cfg layout_imgs lo figs1 w2 of
                        (figs2, w3) \<Rightarrow>
                          ((figs2,
                            \<lparr>layout_blocks = length layout_imgs,
                             xobjects_found = length paths_by_xref,
                             xobjects_exported = count_exported paths_by_xref,
                             figures = length figs2,
                             with_caption = count_with_caption figs2,
                             leftovers = length lo\<rparr>),
                           w3))))"

text \<open>
  The entries of \<^verbatim>\<open>layout_imgs\<close> that a call builds, to read the parts of its figures: the
  same two steps as in \<open>extract_image_blocks\<close>.
\<close>

definition layout_imgs_of :: "'w page_env \<Rightarrow> config \<Rightarrow> block list \<Rightarrow> 'w \<Rightarrow> layout_img list" where
  "layout_imgs_of env cfg blocks w =
     collect_layout_imgs (min_img_area cfg)
       (fst (export_page_images env (img_dir cfg) (stem cfg) (pno cfg) w)) blocks"

section \<open>Auxiliary notions for the figure grouper\<close>

text \<open>
  The invariant of the caption loop: the parts of the figures so far are pairwise different
  indices, they are exactly the assigned ones, and all are positions of \<open>layout_imgs\<close>.
\<close>

definition parts_ok :: "nat \<Rightarrow> nat set \<Rightarrow> figure list \<Rightarrow> bool" where
  "parts_ok n A figs \<longleftrightarrow>
     distinct (concat (map f_parts figs)) \<and> set (concat (map f_parts figs)) = A \<and> A \<subseteq> {..<n}"

text \<open>The two shapes of a figure: built for a caption, or a leftover with one part.\<close>

definition captioned :: "figure \<Rightarrow> bool" where
  "captioned f \<longleftrightarrow> f_parts f \<noteq> [] \<and> f_caption f \<noteq> None"

definition uncaptioned_single :: "figure \<Rightarrow> bool" where
  "uncaptioned_single f \<longleftrightarrow> f_caption f = None \<and> length (f_parts f) = 1"

definition fig_shape :: "figure \<Rightarrow> bool" where
  "fig_shape f \<longleftrightarrow> captioned f \<or> uncaptioned_single f"

text \<open>
  A sample page: an exported bitmap above its caption, an image below the minimum area and
  an image with no caption and no bitmap; and a page environment in which bitmap 7 is
  extracted, the other extractions raise, and every write and rendering succeeds, the world
  counting the calls.
\<close>

definition demo_env :: "nat page_env" where
  "demo_env =
     \<lparr>get_images = [(7, 0), (8, 3), (7, 0), (9, 0)],
      extract_image = (\<lambda>w x. (if x = 7 then Inr (Some ''jpeg'', Some ''bytes'') else Inl ''ValueError()'', Suc w)),
      open_wb = (\<lambda>w p. (None, Suc w)),
      write_bytes = (\<lambda>w p b. (None, Suc w)),
      page_rect = (0, 0, 612, 792),
      rect_and = (\<lambda>(a, b, c, d) (e, f, g, h). (max a e, max b f, min c g, min d h)),
      rect_is_empty = (\<lambda>(a, b, c, d). c \<le> a \<or> d \<le> b),
      rect_width = (\<lambda>(a, b, c, d). c - a),
      rect_height = (\<lambda>(a, b, c, d). d - b),
      get_pixmap = (\<lambda>w s r. (Inr ''pixels'', Suc w)),
      pix_save = (\<lambda>w pix p. (None, Suc w)),
      print = (\<lambda>w m. Suc w)\<rparr>"

definition demo_blocks :: "block list" where
  "demo_blocks =
     [\<lparr>b_type = 1, b_bbox = (100, 100, 300, 300), b_xref = PInt 7, b_number = PInt 0,
       b_image = None, b_lines = []\<rparr>,
      \<lparr>b_type = 0, b_bbox = (100, 310, 300, 330), b_xref = PNone, b_number = PInt 1,
       b_image = None, b_lines = [[''Figure 1: '', ''a plot'']]\<rparr>,
      \<lparr>b_type = 1, b_bbox = (10, 10, 20, 20), b_xref = PNone, b_number = PInt 2,
       b_image = None, b_lines = []\<rparr>,
      \<lparr>b_type = 1, b_bbox = (50, 500, 500, 700), b_xref = PNone, b_number = PInt 0,
       b_image = None, b_lines = []\<rparr>]"

text \<open>Sample blocks around a caption at \<open>(100, 310, 300, 330)\<close>, one failing each test.\<close>

definition demo_imgs :: "layout_img list" where
  "demo_imgs =
     [\<lparr>li_bbox = (100, 100, 300, 300), li_xref = PInt 7, li_image_path = None\<rparr>,
      \<lparr>li_bbox = (100, 100, 300, 320), li_xref = PInt 8, li_image_path = None\<rparr>,
      \<lparr>li_bbox = (100, 20, 300, 220), li_xref = PInt 9, li_image_path = None\<rparr>,
      \<lparr>li_bbox = (250, 100, 450, 300), li_xref = PInt 10, li_image_path = None\<rparr>,
      \<lparr>li_bbox = (90, 100, 400, 300), li_xref = PInt 11, li_image_path = None\<rparr>,
      \<lparr>li_bbox = (110, 150, 290, 305), li_xref = PInt 12, li_image_path = None\<rparr>]"

section \<open>The table extraction orchestrator (parser\_extractors.extract\_tables\_for\_page)\<close>

text \<open>
  An entry of \<^verbatim>\<open>page_texts\<close>, as \<^verbatim>\<open>extract_text_blocks\<close> builds it:
  \<^verbatim>\<open>{"page_no": pno, "bbox": bb, "text": txt}\<close>.
\<close>

record page_text =
  t_page_no :: int
  t_bbox :: bbox
  t_text :: string

text \<open>
  A candidate of the engine's result list: \<^verbatim>\<open>t.shape\<close> and the rows of cell texts
  \<^verbatim>\<open>t.df.values.tolist()\<close>.
\<close>

record cam_table =
  shape :: "nat \<times> nat"
  cells :: "string list list"

text \<open>
  The keyword arguments of \<^verbatim>\<open>camelot.read_pdf\<close>; \<open>kw_pages\<close> is the page number that the
  source passes as \<^verbatim>\<open>str(pno)\<close>, and an argument that is not passed is \<open>None\<close>.
\<close>

record kwargs =
  kw_pages :: int
  kw_flavor :: string
  kw_table_areas :: "bbox list option"
  kw_process_background :: "bool option"
  kw_line_scale :: "int option"
  kw_row_tol :: "int option"
  kw_column_tol :: "int option"
  kw_edge_tol :: "int option"

text \<open>
  The description of an attempt: \<open>AreaDesc area s\<close> is \<^verbatim>\<open>f"area={area},"\<close> followed by \<open>s\<close>,
  \<open>FullDesc area s\<close> is \<^verbatim>\<open>f"full={area},"\<close> followed by \<open>s\<close>, and \<open>NoAreaDesc s\<close> is
  \<^verbatim>\<open>"no-area,"\<close> followed by \<open>s\<close>.
\<close>

datatype desc = AreaDesc bbox string | FullDesc bbox string | NoAreaDesc string

type_synonym attempt = "string \<times> desc \<times> kwargs"

text \<open>
  The table-detection engine and the CSV writer, with the world passed through:
  \<^verbatim>\<open>camelot.read_pdf(pdf_path, **kwargs)\<close> returns the candidates or raises, and
  \<^verbatim>\<open>t.to_csv(path)\<close> returns or raises. Only subclasses of \<^verbatim>\<open>Exception\<close> are modelled.
\<close>

record 'w table_env =
  read_pdf :: "'w \<Rightarrow> string \<Rightarrow> kwargs \<Rightarrow> (string + cam_table list) \<times> 'w"
  to_csv :: "'w \<Rightarrow> cam_table \<Rightarrow> path \<Rightarrow> string option \<times> 'w"

text \<open>
  The arguments of \<^verbatim>\<open>extract_tables_for_page\<close>. \<open>page\<close> is \<open>None\<close> for \<^verbatim>\<open>page=None\<close> and
  otherwise \<^verbatim>\<open>(page.rect.width, page.rect.height)\<close>; \<open>flavors\<close> is accepted and never read.
\<close>

record table_args =
  pdf_path :: string
  ta_pno :: int
  workdir :: string
  ta_stem :: string
  page_texts :: "page_text list"
  page :: "(real \<times> real) option"
  flavors :: "string list"
  save_csv :: bool

text \<open>
  The \<^verbatim>\<open>stats\<close> dictionary. An entry of \<^verbatim>\<open>"tried"\<close> is \<^verbatim>\<open>f"{flavor}:{desc}"\<close>, kept as the
  pair; \<^verbatim>\<open>"attempts"\<close> is created empty and never written.
\<close>

record table_stats =
  ts_page :: int
  ts_tried :: "(string \<times> desc) list"
  ts_found :: nat
  ts_saved_csv :: nat
  ts_error :: "string option"
  ts_attempts :: "string list"

text \<open>A table record, as appended to \<^verbatim>\<open>tables\<close> (lines 319 to 322).\<close>

record table_record =
  tr_page_no :: int
  tr_index :: nat
  tr_engine :: string
  tr_flavor :: string
  tr_nrows :: nat
  tr_ncols :: nat
  tr_csv_path :: "path option"

subsection \<open>The attempt list\<close>

definition lattice_kwargs :: "int \<Rightarrow> bbox list option \<Rightarrow> kwargs" where
  "lattice_kwargs n areas =
     \<lparr>kw_pages = n, kw_flavor = ''lattice'', kw_table_areas = areas,
      kw_process_background = Some True, kw_line_scale = Some 40,
      kw_row_tol = None, kw_column_tol = None, kw_edge_tol = None\<rparr>"

definition stream_kwargs :: "int \<Rightarrow> bbox list option \<Rightarrow> kwargs" where
  "stream_kwargs n areas =
     \<lparr>kw_pages = n, kw_flavor = ''stream'', kw_table_areas = areas,
      kw_process_background = None, kw_line_scale = None,
      kw_row_tol = Some 8, kw_column_tol = Some 8, kw_edge_tol = Some 50\<rparr>"

text \<open>The two attempts added for one area (lines 265 to 272 and 280 to 287).\<close>

definition area_attempts :: "int \<Rightarrow> (bbox \<Rightarrow> string \<Rightarrow> desc) \<Rightarrow> bbox \<Rightarrow> attempt list" where
  "area_attempts n mk area =
     [(''lattice'', mk area ''line_scale=40'', lattice_kwargs n (Some [area])),
      (''stream'', mk area ''row_tol=8,col_tol=8'', stream_kwargs n (Some [area]))]"

text \<open>The two attempts without an area (lines 289 to 295).\<close>

definition no_area_attempts :: "int \<Rightarrow> attempt list" where
  "no_area_attempts n =
     [(''lattice'', NoAreaDesc ''line_scale=40'', lattice_kwargs n None),
      (''stream'', NoAreaDesc ''row/col tol'', stream_kwargs n None)]"

text \<open>
  \<^verbatim>\<open>page_h and page_w\<close> on the two optional floats: both are there and neither is zero.
\<close>

definition dims_truthy :: "real option \<Rightarrow> real option \<Rightarrow> bool" where
  "dims_truthy page_h page_w =
     (case page_h of
        None \<Rightarrow> False
      | Some h \<Rightarrow> h \<noteq> 0 \<and> (case page_w of None \<Rightarrow> False | Some w \<Rightarrow> w \<noteq> 0))"

text \<open>
  Lines 260 to 295: the caption-anchored attempts when there is a caption and the page
  dimensions are truthy, then the inset full page in both orientations, or else the two
  attempts without an area.
\<close>

definition build_attempts ::
  "page_text option \<Rightarrow> real option \<Rightarrow> real option \<Rightarrow> int \<Rightarrow> attempt list" where
  "build_attempts caption page_h page_w n =
     (let inset = 6;
          anchored =
            (case caption of
               None \<Rightarrow> []
             | Some c \<Rightarrow>
                 (case (page_h, page_w) of
                    (Some h, Some w) \<Rightarrow>
                      if dims_truthy page_h page_w
                      then concat (map (area_attempts n AreaDesc)
                             (areas_from_caption_bbox (t_bbox c) w h 6))
                      else []
                  | _ \<Rightarrow> []));
          fallback =
            (case (page_h, page_w) of
               (Some h, Some w) \<Rightarrow>
                 if dims_truthy page_h page_w
                 then concat (map (area_attempts n FullDesc)
                        [(inset, inset, w - inset, h - inset),
                         (inset, h - inset, w - inset, inset)])
                 else no_area_attempts n
             | _ \<Rightarrow> no_area_attempts n)
      in anchored @ fallback)"

text \<open>
  \<^verbatim>\<open>next((t for t in page_texts if CAPTION_RE.match(t["text"])), None)\<close>: the first table
  caption of the page.
\<close>

definition first_caption :: "page_text list \<Rightarrow> page_text option" where
  "first_caption texts = find (\<lambda>t. CAPTION_RE_match (t_text t)) texts"

text \<open>The attempt list of a call.\<close>

definition attempts_of :: "table_args \<Rightarrow> attempt list" where
  "attempts_of a =
     build_attempts (first_caption (page_texts a))
       (map_option snd (page a)) (map_option fst (page a)) (ta_pno a)"

subsection \<open>The acceptance filter\<close>

text \<open>\<^verbatim>\<open>sep.join(parts)\<close>\<close>

fun join :: "string \<Rightarrow> string list \<Rightarrow> string" where
  "join sep [] = []"
| "join sep [x] = x"
| "join sep (x # y # ys) = x @ sep @ join sep (y # ys)"

text \<open>\<^verbatim>\<open>content = "\n".join(" ".join(r) for r in t.df.values.tolist())\<close>\<close>

definition content :: "cam_table \<Rightarrow> string" where
  "content t = join [CHR 0x0A] (map (join '' '') (cells t))"

text \<open>
  The light semantic checks of lines 307 to 311: \<open>True\<close> when neither \<^verbatim>\<open>continue\<close> is
  taken.
\<close>

definition accepted :: "cam_table \<Rightarrow> bool" where
  "accepted t =
     (if fst (shape t) < 2 \<or> snd (shape t) < 2 then False
      else if \<not> list_ex is_digit (content t) then False
      else True)"

subsection \<open>The loops\<close>

text \<open>The record appended for candidate \<open>i\<close> of an attempt with the given flavor.\<close>

definition mk_record :: "table_args \<Rightarrow> string \<Rightarrow> nat \<Rightarrow> cam_table \<Rightarrow> path option \<Rightarrow> table_record" where
  "mk_record a flavor i t csv =
     \<lparr>tr_page_no = ta_pno a, tr_index = i, tr_engine = ''camelot'', tr_flavor = flavor,
      tr_nrows = fst (shape t), tr_ncols = snd (shape t), tr_csv_path = csv\<rparr>"

text \<open>
  The loop over \<^verbatim>\<open>enumerate(t_all, start=1)\<close> (lines 305 to 323), from index \<open>i\<close> on, with
  the count of accepted candidates, the tables, the stats and the world. The first component
  of the result is the exception that \<^verbatim>\<open>t.to_csv\<close> raised, if it did: the loop ends there,
  and what was appended before stays in \<^verbatim>\<open>tables\<close>.
\<close>

fun candidate_loop ::
  "'w table_env \<Rightarrow> table_args \<Rightarrow> string \<Rightarrow> nat \<Rightarrow> cam_table list \<Rightarrow> nat \<Rightarrow>
   table_record list \<Rightarrow> table_stats \<Rightarrow> 'w \<Rightarrow>
   string option \<times> nat \<times> table_record list \<times> table_stats \<times> 'w" where
  "candidate_loop env a flavor i [] acc tables stats w = (None, acc, tables, stats, w)"
| "candidate_loop env a flavor i (t # ts) acc tables stats w =
     (if \<not> accepted t then candidate_loop env a flavor (Suc i) ts acc tables stats w
      else if save_csv a then
        (let csv_path = CsvPath (workdir a) (ta_stem a) (ta_pno a) i flavor in
         (case to_csv env w t csv_path of
            (Some e, w1) \<Rightarrow> (Some e, acc, tables, stats, w1)
          | (None, w1) \<Rightarrow>
              candidate_loop env a flavor (Suc i) ts (Suc acc)
                (tables @ [mk_record a flavor i t (Some csv_path)])
                (stats\<lparr>ts_saved_csv := ts_saved_csv stats + 1\<rparr>) w1))
      else
        candidate_loop env a flavor (Suc i) ts (Suc acc)
          (tables @ [mk_record a flavor i t None]) stats w)"

text \<open>
  The loop over the attempts (lines 298 to 327). The first component of the result is the
  exception that ended the loop, if one did, from the engine or from the CSV writer.
\<close>

fun attempt_loop ::
  "'w table_env \<Rightarrow> table_args \<Rightarrow> attempt list \<Rightarrow> table_record list \<Rightarrow> table_stats \<Rightarrow> 'w \<Rightarrow>
   string option \<times> table_record list \<times> table_stats \<times> 'w" where
  "attempt_loop env a [] tables stats w = (None, tables, stats, w)"
| "attempt_loop env a ((flavor, d, kw) # rest) tables stats w =
     (let stats1 = stats\<lparr>ts_tried := ts_tried stats @ [(flavor, d)]\<rparr> in
      (case read_pdf env w (pdf_path a) kw of
         (Inl e, w1) \<Rightarrow> (Some e, tables, stats1, w1)
       | (Inr t_all, w1) \<Rightarrow>
           if length t_all = 0 then attempt_loop env a rest tables stats1 w1
           else
             (case candidate_loop env a flavor 1 t_all 0 tables stats1 w1 of
                (Some e, acc, tables2, stats2, w2) \<Rightarrow> (Some e, tables2, stats2, w2)
              | (None, acc, tables2, stats2, w2) \<Rightarrow>
                  if acc \<noteq> 0
                  then (None, tables2, stats2\<lparr>ts_found := ts_found stats2 + acc\<rparr>, w2)
                  else attempt_loop env a rest tables2 stats2 w2)))"

subsection \<open>The whole function\<close>

text \<open>\<^verbatim>\<open>not stats["error"]\<close>: the error is \<^verbatim>\<open>None\<close> or the empty string.\<close>

definition error_unset :: "table_stats \<Rightarrow> bool" where
  "error_unset stats = (case ts_error stats of None \<Rightarrow> True | Some s \<Rightarrow> s = [])"

text \<open>
  The function on a given attempt list: the \<^verbatim>\<open>try\<close> around the loop, whose handler stores
  \<^verbatim>\<open>f"Camelot failed/skipped: {e!r}"\<close>, and the final test that stores the no-tables
  diagnostic.
\<close>

definition extract_tables_with ::
  "'w table_env \<Rightarrow> table_args \<Rightarrow> attempt list \<Rightarrow> 'w \<Rightarrow> (table_record list \<times> table_stats) \<times> 'w" where
  "extract_tables_with env a attempts w =
     (let stats0 = \<lparr>ts_page = ta_pno a, ts_tried = [], ts_found = 0, ts_saved_csv = 0,
                    ts_error = None, ts_attempts = []\<rparr>
      in (case attempt_loop env a attempts [] stats0 w of
            (exn, tables, stats1, w1) \<Rightarrow>
              let stats2 =
                    (case exn of
                       Some e \<Rightarrow> stats1\<lparr>ts_error := Some (''Camelot failed/skipped: '' @ e)\<rparr>
                     | None \<Rightarrow> stats1);
                  stats3 =
                    (if ts_found stats2 = 0 \<and> error_unset stats2
                     then stats2\<lparr>ts_error := Some ''no tables detected on this page''\<rparr>
                     else stats2)
              in ((tables, stats3), w1)))"

text \<open>\<^verbatim>\<open>extract_tables_for_page(pdf_path, pno, workdir, stem, page_texts, page, ...)\<close>\<close>

definition extract_tables_for_page ::
  "'w table_env \<Rightarrow> table_args \<Rightarrow> 'w \<Rightarrow> (table_record list \<times> table_stats) \<times> 'w" where
  "extract_tables_for_page env a w = extract_tables_with env a (attempts_of a) w"

subsection \<open>Recording the calls\<close>

text \<open>
  A call of a collaborator with its result. \<open>recording env\<close> behaves as \<open>env\<close> and appends
  each call to a log kept beside the world, so that the calls of a run can be read off.
\<close>

datatype call =
    ReadPdf string kwargs "string + cam_table list"
  | ToCsv cam_table path "string option"

definition recording :: "'w table_env \<Rightarrow> ('w \<times> call list) table_env" where
  "recording env =
     \<lparr>read_pdf = (\<lambda>wl p kw.
        (case read_pdf env (fst wl) p kw of
           (r, w1) \<Rightarrow> (r, (w1, snd wl @ [ReadPdf p kw r])))),
      to_csv = (\<lambda>wl t p.
        (case to_csv env (fst wl) t p of
           (r, w1) \<Rightarrow> (r, (w1, snd wl @ [ToCsv t p r]))))\<rparr>"

text \<open>The engine calls of a log, in order: the keyword arguments and the result.\<close>

fun read_calls :: "call list \<Rightarrow> (kwargs \<times> (string + cam_table list)) list" where
  "read_calls [] = []"
| "read_calls (ReadPdf p kw r # cs) = (kw, r) # read_calls cs"
| "read_calls (ToCsv t p r # cs) = read_calls cs"

text \<open>An engine result with no accepted candidate and no exception.\<close>

definition quiet :: "string + cam_table list \<Rightarrow> bool" where
  "quiet r = (case r of Inl e \<Rightarrow> False | Inr ts \<Rightarrow> \<not> list_ex accepted ts)"

section \<open>Auxiliary notions for the table orchestrator\<close>

text \<open>
  A record that the candidate loop, started at index \<open>i\<close> on the candidates \<open>ts\<close>,
  can append: the record of an accepted candidate at its index, whatever the CSV path.
\<close>

fun sourced_from :: "table_args \<Rightarrow> string \<Rightarrow> nat \<Rightarrow> cam_table list \<Rightarrow> table_record \<Rightarrow> bool" where
  "sourced_from a fl i [] r = False"
| "sourced_from a fl i (t # ts) r =
     ((accepted t \<and> r = mk_record a fl i t (tr_csv_path r)) \<or> sourced_from a fl (Suc i) ts r)"

text \<open>What a run of the candidate loop leaves unchanged, and what it appends.\<close>

definition cand_post ::
  "table_args \<Rightarrow> string \<Rightarrow> nat \<Rightarrow> cam_table list \<Rightarrow> nat \<Rightarrow> table_record list \<Rightarrow> table_stats \<Rightarrow>
   string option \<Rightarrow> nat \<Rightarrow> table_record list \<Rightarrow> table_stats \<Rightarrow> bool" where
  "cand_post a fl i ts acc tables stats exn acc' tables' stats' \<longleftrightarrow>
     ts_tried stats' = ts_tried stats \<and> ts_found stats' = ts_found stats \<and>
     ts_error stats' = ts_error stats \<and> ts_page stats' = ts_page stats \<and>
     (\<exists>recs. tables' = tables @ recs \<and> list_all (sourced_from a fl i ts) recs \<and>
        acc' = acc + length recs \<and>
        (exn = None \<longrightarrow> length recs = length (filter accepted ts)) \<and>
        (exn \<noteq> None \<longrightarrow> list_ex accepted ts))"

text \<open>The keyword arguments of an attempt, and its entry in \<^verbatim>\<open>stats["tried"]\<close>.\<close>

definition kw_of :: "attempt \<Rightarrow> kwargs" where
  "kw_of att = snd (snd att)"

definition tried_of :: "attempt \<Rightarrow> string \<times> desc" where
  "tried_of att = (fst att, fst (snd att))"

text \<open>The engine calls \<open>new\<close> of a run over the attempts \<open>atts\<close>, and the entries of \<open>tried\<close>.\<close>

definition trace_post ::
  "attempt list \<Rightarrow> table_stats \<Rightarrow> (kwargs \<times> (string + cam_table list)) list \<Rightarrow> table_stats \<Rightarrow> bool" where
  "trace_post atts stats new stats' \<longleftrightarrow>
     length new \<le> length atts \<and>
     map fst new = map kw_of (take (length new) atts) \<and>
     ts_tried stats' = ts_tried stats @ map tried_of (take (length new) atts) \<and>
     ts_error stats' = ts_error stats \<and> ts_page stats' = ts_page stats \<and>
     list_all quiet (butlast (map snd new))"

text \<open>The result of a run, by the last engine call.\<close>

definition outcome_post ::
  "table_args \<Rightarrow> attempt list \<Rightarrow> table_record list \<Rightarrow> table_stats \<Rightarrow>
   (kwargs \<times> (string + cam_table list)) list \<Rightarrow> string option \<Rightarrow> table_record list \<Rightarrow>
   table_stats \<Rightarrow> bool" where
  "outcome_post a atts tables stats new exn tables' stats' \<longleftrightarrow>
     (if list_all quiet (map snd new)
      then exn = None \<and> tables' = tables \<and> ts_found stats' = ts_found stats \<and>
           length new = length atts
      else
        (case snd (last new) of
           Inl e \<Rightarrow> exn = Some e \<and> tables' = tables \<and> ts_found stats' = ts_found stats
         | Inr ts \<Rightarrow>
             (\<exists>fl recs. tables' = tables @ recs \<and> list_all (sourced_from a fl 1 ts) recs \<and>
                (case exn of
                   None \<Rightarrow> recs \<noteq> [] \<and> length recs = length (filter accepted ts) \<and>
                     ts_found stats' = ts_found stats + length recs
                 | Some e \<Rightarrow> ts_found stats' = ts_found stats))))"

text \<open>
  The stats at the start of a call, and the diagnostic at its end: the exception that ended
  the attempt loop, or the no-tables message when nothing was found.
\<close>

definition stats0 :: "table_args \<Rightarrow> table_stats" where
  "stats0 a = \<lparr>ts_page = ta_pno a, ts_tried = [], ts_found = 0, ts_saved_csv = 0,
               ts_error = None, ts_attempts = []\<rparr>"

definition final_error :: "string option \<Rightarrow> nat \<Rightarrow> string option" where
  "final_error exn found =
     (case exn of
        Some e \<Rightarrow> Some (''Camelot failed/skipped: '' @ e)
      | None \<Rightarrow> if found = 0 then Some ''no tables detected on this page'' else None)"

text \<open>
  A record has a source among the engine calls when some call returned candidates of which
  the one at the record's index has the record's row and column counts and a digit in its
  cell text.
\<close>

definition has_source :: "(kwargs \<times> (string + cam_table list)) list \<Rightarrow> table_record \<Rightarrow> bool" where
  "has_source calls r =
     list_ex (\<lambda>c. case snd c of
                Inl e \<Rightarrow> False
              | Inr ts \<Rightarrow>
                  1 \<le> tr_index r \<and> tr_index r \<le> length ts \<and>
                  tr_nrows r = fst (shape (ts ! (tr_index r - 1))) \<and>
                  tr_ncols r = snd (shape (ts ! (tr_index r - 1))) \<and>
                  list_ex is_digit (content (ts ! (tr_index r - 1)))) calls"

text \<open>
  Sample calls: a page without page object and one with a table caption; a 3 x 2 grid with
  digits, a 2 x 2 block of prose, a single column of digits; engines that find tables only
  with the second strategy, that raise, that find prose only, and a CSV writer that fails
  on the second table.
\<close>

definition demo_args :: table_args where
  "demo_args =
     \<lparr>pdf_path = ''paper.pdf'', ta_pno = 3, workdir = ''work'', ta_stem = ''paper'',
      page_texts = [], page = None, flavors = [''lattice'', ''stream''], save_csv = True\<rparr>"

definition demo_caption_args :: table_args where
  "demo_caption_args =
     \<lparr>pdf_path = ''paper.pdf'', ta_pno = 3, workdir = ''work'', ta_stem = ''paper'',
      page_texts = [\<lparr>t_page_no = 3, t_bbox = (72, 90, 540, 100), t_text = ''Results''\<rparr>,
                    \<lparr>t_page_no = 3, t_bbox = (100, 300, 300, 320), t_text = ''Table 2: accuracy''\<rparr>],
      page = Some (612, 792), flavors = [''lattice'', ''stream''], save_csv = True\<rparr>"

definition grid :: cam_table where
  "grid = \<lparr>shape = (3, 2), cells = [[''Model'', ''Acc''], [''A'', ''91.2''], [''B'', ''88'']]\<rparr>"

definition prose :: cam_table where
  "prose = \<lparr>shape = (2, 2), cells = [[''We'', ''show''], [''that'', ''it works'']]\<rparr>"

definition column :: cam_table where
  "column = \<lparr>shape = (4, 1), cells = [[''1''], [''2''], [''3''], [''4'']]\<rparr>"

definition demo_engine :: "nat table_env" where
  "demo_engine =
     \<lparr>read_pdf = (\<lambda>w p kw.
        (if kw_flavor kw = ''lattice'' then Inr [] else Inr [grid, prose, column, grid], Suc w)),
      to_csv = (\<lambda>w t p. (None, Suc w))\<rparr>"

definition raising_engine :: "nat table_env" where
  "raising_engine =
     \<lparr>read_pdf = (\<lambda>w p kw. (Inl ''RuntimeError()'', Suc w)),
      to_csv = (\<lambda>w t p. (None, Suc w))\<rparr>"

definition empty_engine :: "nat table_env" where
  "empty_engine =
     \<lparr>read_pdf = (\<lambda>w p kw. (Inr [prose], Suc w)),
      to_csv = (\<lambda>w t p. (None, Suc w))\<rparr>"

definition csv_fail_engine :: "nat table_env" where
  "csv_fail_engine =
     \<lparr>read_pdf = (\<lambda>w p kw. (Inr [grid, grid, grid], Suc w)),
      to_csv = (\<lambda>w t p.
        (case p of CsvPath dir st n i fl \<Rightarrow> if i = 2 then Some ''OSError()'' else None
               | _ \<Rightarrow> None, Suc w))\<rparr>"


definition demo_tables_run :: "(table_record list \<times> table_stats) \<times> nat \<times> call list" where
  "demo_tables_run = extract_tables_for_page (recording demo_engine) demo_args (0, [])"

definition raising_run :: "(table_record list \<times> table_stats) \<times> nat \<times> call list" where
  "raising_run = extract_tables_for_page (recording raising_engine) demo_args (0, [])"

definition empty_run :: "(table_record list \<times> table_stats) \<times> nat \<times> call list" where
  "empty_run = extract_tables_for_page (recording empty_engine) demo_args (0, [])"

text \<open>
  An engine that returns the grid on every call, run on the page with the table caption;
  and a call for a page of width zero.
\<close>

definition accepting_engine :: "nat table_env" where
  "accepting_engine =
     \<lparr>read_pdf = (\<lambda>w p kw. (Inr [grid], Suc w)),
      to_csv = (\<lambda>w t p. (None, Suc w))\<rparr>"

definition zero_width_args :: table_args where
  "zero_width_args =
     \<lparr>pdf_path = ''paper.pdf'', ta_pno = 3, workdir = ''work'', ta_stem = ''paper'',
      page_texts = [\<lparr>t_page_no = 3, t_bbox = (100, 300, 300, 320), t_text = ''Table 2: accuracy''\<rparr>],
      page = Some (0, 792), flavors = [''lattice'', ''stream''], save_csv = True\<rparr>"

definition accepting_run :: "(table_record list \<times> table_stats) \<times> nat \<times> call list" where
  "accepting_run = extract_tables_for_page (recording accepting_engine) demo_caption_args (0, [])"

section \<open>Runs in two worlds\<close>

text \<open>
  Two environments, over worlds of any two types, answer alike with respect to a relation
  \<open>R\<close> between their worlds: from related worlds every call returns the same result (the
  same value or the same exception) and leaves related worlds; what a page environment
  reads off the page without an effect is the same in both.
\<close>

definition table_env_rel :: "('w \<Rightarrow> 'v \<Rightarrow> bool) \<Rightarrow> 'w table_env \<Rightarrow> 'v table_env \<Rightarrow> bool" where
  "table_env_rel R e1 e2 \<longleftrightarrow>
     (\<forall>w v p kw. R w v \<longrightarrow> rel_prod (=) R (read_pdf e1 w p kw) (read_pdf e2 v p kw)) \<and>
     (\<forall>w v t p. R w v \<longrightarrow> rel_prod (=) R (to_csv e1 w t p) (to_csv e2 v t p))"



section \<open>Properties of the area planner\<close>

lemma areas_explicit:
  "areas_from_caption_bbox (x0, y0, x1, y1) page_w page_h pad =
     [(pad, page_h - max 0 (y0 - pad), page_w - pad, page_h - pad),
      (pad, pad, page_w - pad, max 0 (y0 - pad)),
      (pad, page_h - (page_h - pad), page_w - pad, page_h - min page_h (y1 + pad)),
      (pad, min page_h (y1 + pad), page_w - pad, page_h - pad)]"
  by (simp add: areas_from_caption_bbox_def to_camelot_def)







section \<open>Properties of the figure grouper\<close>

subsection \<open>The candidates of a caption\<close>

lemma cand_loop_filter:
  "cand_loop cfg A cbb k ibs =
     filter (\<lambda>idx. idx \<notin> A \<and> is_candidate cfg cbb (li_bbox (ibs ! (idx - k)))) [k..<k + length ibs]"
proof (induction ibs arbitrary: k)
  case Nil
  show ?case by simp
next
  case (Cons ib ibs)
  have shift: "filter (\<lambda>idx. idx \<notin> A \<and> is_candidate cfg cbb (li_bbox ((ib # ibs) ! (idx - k))))
                 [Suc k..<Suc k + length ibs] =
               filter (\<lambda>idx. idx \<notin> A \<and> is_candidate cfg cbb (li_bbox (ibs ! (idx - Suc k))))
                 [Suc k..<Suc k + length ibs]"
    by (rule filter_cong) (auto simp: nth_Cons')
  have upt: "[k..<k + length (ib # ibs)] = k # [Suc k..<Suc k + length ibs]"
    using upt_conv_Cons [of k "k + length (ib # ibs)"] by (simp del: upt_Suc)
  show ?case
    unfolding upt using shift by (simp add: Cons.IH del: upt_Suc)
qed

lemma cand_idxs_filter:
  "cand_idxs cfg A L cbb =
     filter (\<lambda>idx. idx \<notin> A \<and> is_candidate cfg cbb (li_bbox (L ! idx))) [0..<length L]"
  by (simp add: cand_idxs_def cand_loop_filter)

lemma cand_idxs_distinct: "distinct (cand_idxs cfg A L cbb)"
  by (simp add: cand_idxs_filter)

lemma cand_idxs_set:
  "set (cand_idxs cfg A L cbb) \<subseteq> {..<length L} - A"
  by (auto simp: cand_idxs_filter)

lemma is_candidate_iff:
  "is_candidate cfg (cx0, cy0, cx1, cy1) (bx0, by0, bx1, by1) \<longleftrightarrow>
     by1 \<le> cy0 \<and>
     min_cap_overlap cfg \<le> max 0 (min bx1 cx1 - max bx0 cx0) / cap_width (cx0, cy0, cx1, cy1) \<and>
     0 \<le> cy0 - by1 \<and> cy0 - by1 \<le> max_v_gap cfg \<and>
     \<bar>max 0 (bx1 - bx0) - cap_width (cx0, cy0, cx1, cy1)\<bar> / cap_width (cx0, cy0, cx1, cy1)
       \<le> width_tol cfg"
  by (auto simp: is_candidate_def h_overlap_def bb_w_def)

text \<open>
  C5: for a caption with box \<open>(cx0, cy0, cx1, cy1)\<close>, an index is among the candidates
  exactly when it is a position of \<open>layout_imgs\<close>, not assigned, and its box
  \<open>(bx0, by0, bx1, by1)\<close> passes the four tests: (a) its bottom edge is not below the
  caption's top edge; (b) the horizontal overlap over the caption width is at least
  \<open>min_cap_overlap\<close>; (c) the vertical gap lies in \<open>[0, max_v_gap]\<close>; (d) the relative
  width difference is at most \<open>width_tol\<close>. The caption width is \<^verbatim>\<open>cap_w\<close>, the width of
  the caption box floored at \<open>1e-6\<close>; the defaults are 0.35, 60 and 0.30.
\<close>

theorem candidate_iff:
  "(idx \<in> set (cand_idxs cfg assigned layout_imgs (cx0, cy0, cx1, cy1)) \<longleftrightarrow>
     idx < length layout_imgs \<and> idx \<notin> assigned \<and>
     (case li_bbox (layout_imgs ! idx) of (bx0, by0, bx1, by1) \<Rightarrow>
        by1 \<le> cy0 \<and>
        min_cap_overlap cfg \<le>
          max 0 (min bx1 cx1 - max bx0 cx0) / cap_width (cx0, cy0, cx1, cy1) \<and>
        0 \<le> cy0 - by1 \<and> cy0 - by1 \<le> max_v_gap cfg \<and>
        \<bar>max 0 (bx1 - bx0) - cap_width (cx0, cy0, cx1, cy1)\<bar> / cap_width (cx0, cy0, cx1, cy1)
          \<le> width_tol cfg)) \<and>
   cap_width (cx0, cy0, cx1, cy1) = max (1 / 1000000) (max 0 (cx1 - cx0)) \<and>
   min_cap_overlap (default_config n dir st) = 35 / 100 \<and>
   max_v_gap (default_config n dir st) = 60 \<and>
   width_tol (default_config n dir st) = 30 / 100"
proof -
  obtain bx0 by0 bx1 by1 where b: "li_bbox (layout_imgs ! idx) = (bx0, by0, bx1, by1)"
    by (cases "li_bbox (layout_imgs ! idx)") auto
  have "idx \<in> set (cand_idxs cfg assigned layout_imgs (cx0, cy0, cx1, cy1)) \<longleftrightarrow>
     idx < length layout_imgs \<and> idx \<notin> assigned \<and>
     is_candidate cfg (cx0, cy0, cx1, cy1) (li_bbox (layout_imgs ! idx))"
    by (auto simp: cand_idxs_filter)
  then show ?thesis
    unfolding b is_candidate_iff by (simp add: cap_width_def bb_w_def default_config_def)
qed

lemma demo_cands:
  "cand_idxs (default_config 3 ''out'' ''paper'') {} demo_imgs (100, 310, 300, 330) = [0, 5]"
  by (simp add: cand_idxs_def demo_imgs_def is_candidate_def h_overlap_def cap_width_def
      bb_w_def default_config_def)

theorem candidate_iff_witness:
  "(0::nat) \<in> set (cand_idxs (default_config 3 ''out'' ''paper'') {} demo_imgs (100, 310, 300, 330)) \<and>
   (1::nat) \<notin> set (cand_idxs (default_config 3 ''out'' ''paper'') {} demo_imgs (100, 310, 300, 330)) \<and>
   (2::nat) \<notin> set (cand_idxs (default_config 3 ''out'' ''paper'') {} demo_imgs (100, 310, 300, 330)) \<and>
   (3::nat) \<notin> set (cand_idxs (default_config 3 ''out'' ''paper'') {} demo_imgs (100, 310, 300, 330)) \<and>
   (4::nat) \<notin> set (cand_idxs (default_config 3 ''out'' ''paper'') {} demo_imgs (100, 310, 300, 330))"
  using candidate_iff [of 0 "default_config 3 ''out'' ''paper''" "{}" demo_imgs 100 310 300 330]
    candidate_iff [of 1 "default_config 3 ''out'' ''paper''" "{}" demo_imgs 100 310 300 330]
    candidate_iff [of 2 "default_config 3 ''out'' ''paper''" "{}" demo_imgs 100 310 300 330]
    candidate_iff [of 3 "default_config 3 ''out'' ''paper''" "{}" demo_imgs 100 310 300 330]
    candidate_iff [of 4 "default_config 3 ''out'' ''paper''" "{}" demo_imgs 100 310 300 330]
  by (simp add: demo_imgs_def cap_width_def bb_w_def default_config_def)


subsection \<open>The partition of the layout image blocks\<close>

lemma caption_loop_parts_ok:
  "parts_ok (length L) A figs \<Longrightarrow> caption_loop env cfg L caps A figs w = (A', figs', w') \<Longrightarrow>
   parts_ok (length L) A' figs'"
proof (induction caps arbitrary: A figs w)
  case Nil
  then show ?case by simp
next
  case (Cons cap caps)
  show ?case
  proof (cases "cand_idxs cfg A L (c_bbox cap)")
    case Nil
    with Cons show ?thesis by simp
  next
    case (Cons i rest)
    obtain rp w1 where r: "rasterize env cfg (union_loop L (li_bbox (L ! i)) rest)
        (FigurePath (img_dir cfg) (stem cfg) (pno cfg) (length figs + 1))
        (RasterFailUnion (pno cfg)) (rep_path_of L (i # rest)) w = (rp, w1)"
      by (cases "rasterize env cfg (union_loop L (li_bbox (L ! i)) rest)
        (FigurePath (img_dir cfg) (stem cfg) (pno cfg) (length figs + 1))
        (RasterFailUnion (pno cfg)) (rep_path_of L (i # rest)) w") auto
    let ?fig = "\<lparr>f_page_no = pno cfg, f_caption = Some (c_text cap),
                 f_bbox = union_loop L (li_bbox (L ! i)) rest, f_image_path = rp,
                 f_parts = i # rest\<rparr>"
    have d: "distinct (i # rest)" and s: "set (i # rest) \<subseteq> {..<length L} - A"
      using cand_idxs_distinct [of cfg A L "c_bbox cap"] cand_idxs_set [of cfg A L "c_bbox cap"]
      unfolding Cons by simp_all
    have ok: "parts_ok (length L) (A \<union> set (i # rest)) (figs @ [?fig])"
      using Cons.prems(1) d s unfolding parts_ok_def by auto
    have "caption_loop env cfg L caps (A \<union> set (i # rest)) (figs @ [?fig]) w1 = (A', figs', w')"
      using Cons.prems(2) Cons r by (simp add: Let_def)
    from Cons.IH [OF ok this] show ?thesis .
  qed
qed

lemma leftover_loop_parts:
  "map f_parts (fst (leftover_loop env cfg L is figs w)) = map f_parts figs @ map (\<lambda>i. [i]) is"
proof (induction "is" arbitrary: figs w)
  case Nil
  show ?case by simp
next
  case (Cons i "is")
  show ?case
    by (simp add: Let_def Cons.IH split: prod.splits)
qed


lemma caption_loop_captioned:
  "list_all captioned figs \<Longrightarrow>
   caption_loop env cfg L caps A figs w = (A', figs', w') \<Longrightarrow>
   list_all captioned figs'"
proof (induction caps arbitrary: A figs w)
  case Nil
  then show ?case by simp
next
  case (Cons cap caps)
  show ?case
  proof (cases "cand_idxs cfg A L (c_bbox cap)")
    case Nil
    with Cons show ?thesis by simp
  next
    case (Cons i rest)
    obtain rp w1 where r: "rasterize env cfg (union_loop L (li_bbox (L ! i)) rest)
        (FigurePath (img_dir cfg) (stem cfg) (pno cfg) (length figs + 1))
        (RasterFailUnion (pno cfg)) (rep_path_of L (i # rest)) w = (rp, w1)"
      by (cases "rasterize env cfg (union_loop L (li_bbox (L ! i)) rest)
        (FigurePath (img_dir cfg) (stem cfg) (pno cfg) (length figs + 1))
        (RasterFailUnion (pno cfg)) (rep_path_of L (i # rest)) w") auto
    let ?fig = "\<lparr>f_page_no = pno cfg, f_caption = Some (c_text cap),
                 f_bbox = union_loop L (li_bbox (L ! i)) rest, f_image_path = rp,
                 f_parts = i # rest\<rparr>"
    have "captioned ?fig" by (simp add: captioned_def)
    with Cons.prems(1) have ok: "list_all captioned (figs @ [?fig])"
      by simp
    have "caption_loop env cfg L caps (A \<union> set (i # rest)) (figs @ [?fig]) w1 = (A', figs', w')"
      using Cons.prems(2) Cons r by (simp add: Let_def)
    from Cons.IH [OF ok this] show ?thesis .
  qed
qed


lemma leftover_loop_shape:
  "list_all fig_shape figs \<Longrightarrow> list_all fig_shape (fst (leftover_loop env cfg L is figs w))"
proof (induction "is" arbitrary: figs w)
  case Nil
  then show ?case by simp
next
  case (Cons i "is")
  obtain rp w1 where r: "rasterize env cfg (li_bbox (L ! i))
      (CropPath (img_dir cfg) (stem cfg) (pno cfg) (i + 1))
      (RasterFailLeftover (pno cfg) (i + 1)) (li_image_path (L ! i)) w = (rp, w1)"
    by (cases "rasterize env cfg (li_bbox (L ! i))
      (CropPath (img_dir cfg) (stem cfg) (pno cfg) (i + 1))
      (RasterFailLeftover (pno cfg) (i + 1)) (li_image_path (L ! i)) w") auto
  let ?fig = "\<lparr>f_page_no = pno cfg, f_caption = None, f_bbox = li_bbox (L ! i),
               f_image_path = rp, f_parts = [i]\<rparr>"
  have "fig_shape ?fig" by (simp add: fig_shape_def uncaptioned_single_def)
  with Cons.prems have ok: "list_all fig_shape (figs @ [?fig])" by simp
  have "leftover_loop env cfg L (i # is) figs w = leftover_loop env cfg L is (figs @ [?fig]) w1"
    using r by (simp add: Let_def)
  with Cons.IH [OF ok, of w1] show ?case by simp
qed

lemma fig_shape_parts: "fig_shape f \<Longrightarrow> f_parts f \<noteq> [] \<and> (f_caption f = None \<longrightarrow> length (f_parts f) = 1)"
  by (auto simp: fig_shape_def captioned_def uncaptioned_single_def)

lemma extract_image_blocks_unfold:
  assumes e: "export_page_images env (img_dir cfg) (stem cfg) (pno cfg) w = (paths, w1)"
    and c: "caption_loop env cfg (collect_layout_imgs (min_img_area cfg) paths blocks)
              (find_captions blocks) {} [] w1 = (A, figs1, w2)"
    and l: "leftover_loop env cfg (collect_layout_imgs (min_img_area cfg) paths blocks)
              (leftover_idxs A (collect_layout_imgs (min_img_area cfg) paths blocks)) figs1 w2 =
              (figs2, w3)"
  shows "extract_image_blocks env cfg blocks w =
     ((figs2,
       \<lparr>layout_blocks = length (collect_layout_imgs (min_img_area cfg) paths blocks),
        xobjects_found = length paths,
        xobjects_exported = count_exported paths,
        figures = length figs2,
        with_caption = count_with_caption figs2,
        leftovers = length (leftover_idxs A (collect_layout_imgs (min_img_area cfg) paths blocks))\<rparr>),
      w3)"
  unfolding extract_image_blocks_def e by (simp add: c l Let_def)

lemma demo_run:
  "extract_image_blocks demo_env (default_config 3 ''out'' ''paper'') demo_blocks 0 =
   (([\<lparr>f_page_no = 3, f_caption = Some ''Figure 1: a plot'',
       f_bbox = (100, 100, 300, 300),
       f_image_path = Some (XObjectPath ''out'' ''paper'' 3 7 ''jpeg''),
       f_parts = [0]\<rparr>,
    \<lparr>f_page_no = 3, f_caption = None, f_bbox = (50, 500, 500, 700),
       f_image_path = Some (CropPath ''out'' ''paper'' 3 2),
       f_parts = [1]\<rparr>],
   \<lparr>layout_blocks = 2, xobjects_found = 2, xobjects_exported = 1,
      figures = 2, with_caption = 1, leftovers = 1\<rparr>),
  6)"
  by code_simp

lemma demo_layout:
  "layout_imgs_of demo_env (default_config 3 ''out'' ''paper'') demo_blocks 0 =
   [\<lparr>li_bbox = (100, 100, 300, 300), li_xref = PInt 7,
     li_image_path = Some (XObjectPath ''out'' ''paper'' 3 7 ''jpeg'')\<rparr>,
  \<lparr>li_bbox = (50, 500, 500, 700), li_xref = PInt 0, li_image_path = None\<rparr>]"
  by code_simp




lemma extract_image_blocks_parts:
  assumes "extract_image_blocks env cfg blocks w = ((figs, stats), w')"
  shows "distinct (concat (map f_parts figs)) \<and>
         set (concat (map f_parts figs)) = {..<length (layout_imgs_of env cfg blocks w)} \<and>
         list_all (\<lambda>f. f_parts f \<noteq> [] \<and> (f_caption f = None \<longrightarrow> length (f_parts f) = 1)) figs"
proof -
  obtain paths w1 where e: "export_page_images env (img_dir cfg) (stem cfg) (pno cfg) w = (paths, w1)"
    by (cases "export_page_images env (img_dir cfg) (stem cfg) (pno cfg) w") auto
  define L where "L = collect_layout_imgs (min_img_area cfg) paths blocks"
  have LL: "layout_imgs_of env cfg blocks w = L"
    by (simp add: layout_imgs_of_def e L_def)
  obtain A figs1 w2 where c: "caption_loop env cfg L (find_captions blocks) {} [] w1 = (A, figs1, w2)"
    by (cases "caption_loop env cfg L (find_captions blocks) {} [] w1") auto
  obtain figs2 w3 where l: "leftover_loop env cfg L (leftover_idxs A L) figs1 w2 = (figs2, w3)"
    by (cases "leftover_loop env cfg L (leftover_idxs A L) figs1 w2") auto
  have "fst (fst (extract_image_blocks env cfg blocks w)) = figs2"
    using extract_image_blocks_unfold [OF e c [unfolded L_def] l [unfolded L_def]] by simp
  then have figs: "figs = fst (leftover_loop env cfg L (leftover_idxs A L) figs1 w2)"
    using assms l by simp
  have "parts_ok (length L) {} []" by (simp add: parts_ok_def)
  from caption_loop_parts_ok [OF this c] have ok: "parts_ok (length L) A figs1" .
  have parts: "concat (map f_parts figs) = concat (map f_parts figs1) @ leftover_idxs A L"
    unfolding figs leftover_loop_parts by (simp add: concat_map_singleton)
  have lo: "distinct (leftover_idxs A L)" "set (leftover_idxs A L) = {..<length L} - A"
    by (auto simp: leftover_idxs_def)
  have d: "distinct (concat (map f_parts figs))"
    unfolding parts using ok lo by (auto simp: parts_ok_def)
  have s: "set (concat (map f_parts figs)) = {..<length L}"
    unfolding parts using ok lo by (auto simp: parts_ok_def)
  have "list_all captioned figs1"
    by (rule caption_loop_captioned [OF _ c]) simp
  then have "list_all fig_shape figs1"
    by (simp add: list_all_iff fig_shape_def)
  then have "list_all fig_shape figs"
    unfolding figs by (rule leftover_loop_shape)
  then have shape: "list_all (\<lambda>f. f_parts f \<noteq> [] \<and> (f_caption f = None \<longrightarrow> length (f_parts f) = 1)) figs"
    unfolding list_all_iff using fig_shape_parts by blast
  show ?thesis using d s shape by (simp add: LL)
qed

text \<open>
  C1: whatever the collaborators do, the parts of the figures that \<open>extract_image_blocks\<close>
  returns are pairwise different and are exactly the positions of \<open>layout_imgs\<close>, so each
  layout image block that enters grouping is in the parts of exactly one figure; every
  figure has a part, and a figure without caption (a leftover) has exactly one.
\<close>

theorem extract_image_blocks_partition:
  assumes "extract_image_blocks env cfg blocks w = ((figs, stats), w')"
  shows "distinct (concat (map f_parts figs)) \<and>
         set (concat (map f_parts figs)) = {..<length (layout_imgs_of env cfg blocks w)} \<and>
         list_all (\<lambda>f. f_parts f \<noteq> [] \<and> (f_caption f = None \<longrightarrow> length (f_parts f) = 1)) figs"
  using assms by (rule extract_image_blocks_parts)

theorem extract_image_blocks_partition_witness:
  "extract_image_blocks demo_env (default_config 3 ''out'' ''paper'') demo_blocks 0 =
     ((fst (fst (extract_image_blocks demo_env (default_config 3 ''out'' ''paper'') demo_blocks 0)),
       snd (fst (extract_image_blocks demo_env (default_config 3 ''out'' ''paper'') demo_blocks 0))),
      6) \<and>
   map f_parts (fst (fst (extract_image_blocks demo_env (default_config 3 ''out'' ''paper'')
     demo_blocks 0))) = [[0], [1]] \<and>
   length (layout_imgs_of demo_env (default_config 3 ''out'' ''paper'') demo_blocks 0) = 2 \<and>
   distinct (concat (map f_parts (fst (fst (extract_image_blocks demo_env
     (default_config 3 ''out'' ''paper'') demo_blocks 0)))))"
  using extract_image_blocks_partition [OF demo_run] by (simp add: demo_run demo_layout)

subsection \<open>Image blocks below the minimum area\<close>

lemma collect_layout_imgs_filter:
  "collect_layout_imgs m paths blocks = map (layout_img_of paths) (filter (enters_grouping m) blocks)"
  by (induction blocks) simp_all

lemma collect_layout_imgs_area:
  "p \<in> set (collect_layout_imgs m paths blocks) \<Longrightarrow> m \<le> bb_w (li_bbox p) * bb_h (li_bbox p)"
  by (auto simp: collect_layout_imgs_filter layout_img_of_def enters_grouping_def split: if_splits)

lemma collect_layout_imgs_removeAll:
  "\<not> enters_grouping m b \<Longrightarrow>
   collect_layout_imgs m paths (removeAll b blocks) = collect_layout_imgs m paths blocks"
  by (induction blocks) auto

lemma find_captions_removeAll:
  "b_type b \<noteq> 0 \<Longrightarrow> find_captions (removeAll b blocks) = find_captions blocks"
  by (induction blocks) auto

lemma extract_image_blocks_removeAll:
  assumes "\<not> enters_grouping (min_img_area cfg) b" and "b_type b \<noteq> 0"
  shows "extract_image_blocks env cfg (removeAll b blocks) w = extract_image_blocks env cfg blocks w"
  unfolding extract_image_blocks_def
  by (simp only: collect_layout_imgs_removeAll [OF assms(1)] find_captions_removeAll [OF assms(2)])

lemma small_not_enters:
  "b_type b = 1 \<Longrightarrow> bb_w (b_bbox b) * bb_h (b_bbox b) < m \<Longrightarrow> \<not> enters_grouping m b"
  by (simp add: enters_grouping_def)

lemma extract_image_blocks_layout_blocks:
  "layout_blocks (snd (fst (extract_image_blocks env cfg blocks w))) =
   length (layout_imgs_of env cfg blocks w)"
proof -
  obtain paths w1 where e: "export_page_images env (img_dir cfg) (stem cfg) (pno cfg) w = (paths, w1)"
    by (cases "export_page_images env (img_dir cfg) (stem cfg) (pno cfg) w") auto
  define L where "L = collect_layout_imgs (min_img_area cfg) paths blocks"
  obtain A figs1 w2 where c: "caption_loop env cfg L (find_captions blocks) {} [] w1 = (A, figs1, w2)"
    by (cases "caption_loop env cfg L (find_captions blocks) {} [] w1") auto
  obtain figs2 w3 where l: "leftover_loop env cfg L (leftover_idxs A L) figs1 w2 = (figs2, w3)"
    by (cases "leftover_loop env cfg L (leftover_idxs A L) figs1 w2") auto
  show ?thesis
    unfolding extract_image_blocks_unfold [OF e c [unfolded L_def] l [unfolded L_def]]
    by (simp add: layout_imgs_of_def e)
qed

text \<open>
  C10: an image block whose area \<open>bb_w * bb_h\<close> (each floored at 0) is strictly below
  \<open>min_img_area\<close> does not enter grouping: every part of every figure has an area of at
  least \<open>min_img_area\<close> and so a box other than the block's; the \<open>layout_blocks\<close> stat
  counts only the blocks that enter grouping; and the whole result (figures, stats and final
  world) is the one obtained from the page without the block.
\<close>

theorem small_image_blocks_excluded:
  assumes run: "extract_image_blocks env cfg blocks w = ((figs, stats), w')"
    and img: "b_type b = 1"
    and small: "bb_w (b_bbox b) * bb_h (b_bbox b) < min_img_area cfg"
  shows "list_all (\<lambda>f. list_all (\<lambda>p. min_img_area cfg \<le> bb_w (li_bbox p) * bb_h (li_bbox p) \<and>
                                     li_bbox p \<noteq> b_bbox b)
                     (part_values (layout_imgs_of env cfg blocks w) f)) figs \<and>
         layout_blocks stats = length (filter (enters_grouping (min_img_area cfg)) blocks) \<and>
         \<not> enters_grouping (min_img_area cfg) b \<and>
         extract_image_blocks env cfg (removeAll b blocks) w = extract_image_blocks env cfg blocks w"
proof -
  let ?L = "layout_imgs_of env cfg blocks w"
  have ne: "\<not> enters_grouping (min_img_area cfg) b"
    using img small by (rule small_not_enters)
  have rm: "extract_image_blocks env cfg (removeAll b blocks) w = extract_image_blocks env cfg blocks w"
    using ne img by (intro extract_image_blocks_removeAll) simp_all
  have lb: "layout_blocks stats = length (filter (enters_grouping (min_img_area cfg)) blocks)"
    using extract_image_blocks_layout_blocks [of env cfg blocks w] run
    by (simp add: layout_imgs_of_def collect_layout_imgs_filter)
  have idx: "set (concat (map f_parts figs)) = {..<length ?L}"
    using extract_image_blocks_parts [OF run] by simp
  have parts: "list_all (\<lambda>p. min_img_area cfg \<le> bb_w (li_bbox p) * bb_h (li_bbox p) \<and>
                 li_bbox p \<noteq> b_bbox b) (part_values ?L f)" if f: "f \<in> set figs" for f
    unfolding list_all_iff
  proof
    fix p assume "p \<in> set (part_values ?L f)"
    then obtain i where i: "i \<in> set (f_parts f)" and p: "p = ?L ! i"
      by (auto simp: part_values_def)
    from i f idx have "i < length ?L" by auto
    then have "p \<in> set ?L" using p by simp
    then have a: "min_img_area cfg \<le> bb_w (li_bbox p) * bb_h (li_bbox p)"
      unfolding layout_imgs_of_def by (rule collect_layout_imgs_area)
    with small have "li_bbox p \<noteq> b_bbox b" by auto
    with a show "min_img_area cfg \<le> bb_w (li_bbox p) * bb_h (li_bbox p) \<and> li_bbox p \<noteq> b_bbox b"
      by simp
  qed
  show ?thesis using parts ne rm lb by (simp add: list_all_iff)
qed

lemma demo_small: "b_type (demo_blocks ! 2) = 1 \<and>
   bb_w (b_bbox (demo_blocks ! 2)) * bb_h (b_bbox (demo_blocks ! 2)) = 100 \<and>
   min_img_area (default_config 3 ''out'' ''paper'') = 6400"
  by (simp add: demo_blocks_def bb_w_def bb_h_def default_config_def)

theorem small_image_blocks_excluded_witness:
  "b_type (demo_blocks ! 2) = 1 \<and>
   bb_w (b_bbox (demo_blocks ! 2)) * bb_h (b_bbox (demo_blocks ! 2))
     < min_img_area (default_config 3 ''out'' ''paper'') \<and>
   layout_blocks (snd (fst (extract_image_blocks demo_env (default_config 3 ''out'' ''paper'')
     demo_blocks 0))) = 2 \<and>
   length (filter (enters_grouping (min_img_area (default_config 3 ''out'' ''paper''))) demo_blocks) = 2 \<and>
   extract_image_blocks demo_env (default_config 3 ''out'' ''paper'')
     (removeAll (demo_blocks ! 2) demo_blocks) 0 =
   extract_image_blocks demo_env (default_config 3 ''out'' ''paper'') demo_blocks 0"
proof -
  have s: "bb_w (b_bbox (demo_blocks ! 2)) * bb_h (b_bbox (demo_blocks ! 2))
     < min_img_area (default_config 3 ''out'' ''paper'')"
    using demo_small by simp
  have t: "b_type (demo_blocks ! 2) = 1" using demo_small by simp
  from small_image_blocks_excluded [OF demo_run t s] s t show ?thesis
    by (simp add: demo_run)
qed

section \<open>The results depend on the world through the collaborators only\<close>

lemma rel_prodD: "rel_prod (=) R x y \<Longrightarrow> fst x = fst y \<and> R (snd x) (snd y)"
  by (cases x; cases y) simp

lemma table_env_rel_read:
  "table_env_rel R e1 e2 \<Longrightarrow> R w v \<Longrightarrow> read_pdf e1 w p kw = (r, w1) \<Longrightarrow>
   \<exists>v1. read_pdf e2 v p kw = (r, v1) \<and> R w1 v1"
  unfolding table_env_rel_def
  by (metis rel_prodD fst_conv snd_conv prod.collapse)

lemma table_env_rel_csv:
  "table_env_rel R e1 e2 \<Longrightarrow> R w v \<Longrightarrow> to_csv e1 w t p = (r, w1) \<Longrightarrow>
   \<exists>v1. to_csv e2 v t p = (r, v1) \<and> R w1 v1"
  unfolding table_env_rel_def
  by (metis rel_prodD fst_conv snd_conv prod.collapse)

lemma candidate_loop_rel:
  assumes e: "table_env_rel R e1 e2"
  shows "R w v \<Longrightarrow> candidate_loop e1 a fl i ts acc tables stats w = (x, acc', tables', stats', w') \<Longrightarrow>
   \<exists>v'. candidate_loop e2 a fl i ts acc tables stats v = (x, acc', tables', stats', v') \<and> R w' v'"
proof (induction ts arbitrary: i acc tables stats w v)
  case Nil
  then show ?case by simp
next
  case (Cons t ts)
  show ?case
  proof (cases "accepted t")
    case False
    with Cons.prems(2) have "candidate_loop e1 a fl (Suc i) ts acc tables stats w = (x, acc', tables', stats', w')"
      by simp
    from Cons.IH [OF Cons.prems(1) this] False show ?thesis by simp
  next
    case True
    show ?thesis
    proof (cases "save_csv a")
      case False
      with True Cons.prems(2) have "candidate_loop e1 a fl (Suc i) ts (Suc acc)
          (tables @ [mk_record a fl i t None]) stats w = (x, acc', tables', stats', w')"
        by simp
      from Cons.IH [OF Cons.prems(1) this] True False show ?thesis by simp
    next
      case csv: True
      let ?p = "CsvPath (workdir a) (ta_stem a) (ta_pno a) i fl"
      obtain r w1 where c: "to_csv e1 w t ?p = (r, w1)"
        by (cases "to_csv e1 w t ?p") auto
      from table_env_rel_csv [OF e Cons.prems(1) c] obtain v1 where
        c2: "to_csv e2 v t ?p = (r, v1)" and r1: "R w1 v1" by blast
      show ?thesis
      proof (cases r)
        case (Some ex)
        with True csv c Cons.prems(2) have "x = Some ex" "acc' = acc" "tables' = tables"
          "stats' = stats" "w' = w1"
          by (auto simp: Let_def)
        with True csv c2 Some r1 show ?thesis by (simp add: Let_def)
      next
        case None
        let ?s = "stats\<lparr>ts_saved_csv := ts_saved_csv stats + 1\<rparr>"
        from None True csv c Cons.prems(2) have "candidate_loop e1 a fl (Suc i) ts (Suc acc)
          (tables @ [mk_record a fl i t (Some ?p)]) ?s w1 = (x, acc', tables', stats', w')"
          by (simp add: Let_def)
        from Cons.IH [OF r1 this] None True csv c2 show ?thesis by (simp add: Let_def)
      qed
    qed
  qed
qed

lemma attempt_loop_rel:
  assumes e: "table_env_rel R e1 e2"
  shows "R w v \<Longrightarrow> attempt_loop e1 a atts tables stats w = (x, tables', stats', w') \<Longrightarrow>
   \<exists>v'. attempt_loop e2 a atts tables stats v = (x, tables', stats', v') \<and> R w' v'"
proof (induction atts arbitrary: tables stats w v)
  case Nil
  then show ?case by simp
next
  case (Cons att rest)
  obtain fl d kw where att: "att = (fl, d, kw)" by (cases att) auto
  let ?s1 = "stats\<lparr>ts_tried := ts_tried stats @ [(fl, d)]\<rparr>"
  obtain r w1 where rp: "read_pdf e1 w (pdf_path a) kw = (r, w1)"
    by (cases "read_pdf e1 w (pdf_path a) kw") auto
  from table_env_rel_read [OF e Cons.prems(1) rp] obtain v1 where
    rp2: "read_pdf e2 v (pdf_path a) kw = (r, v1)" and r1: "R w1 v1" by blast
  show ?case
  proof (cases r)
    case (Inl ex)
    from Cons.prems(2) have "x = Some ex" "tables' = tables" "stats' = ?s1" "w' = w1"
      unfolding att by (simp_all add: rp Inl Let_def)
    with r1 show ?thesis unfolding att by (simp add: rp2 Inl Let_def)
  next
    case (Inr t_all)
    show ?thesis
    proof (cases "length t_all = 0")
      case True
      from Cons.prems(2) have "attempt_loop e1 a rest tables ?s1 w1 = (x, tables', stats', w')"
        unfolding att using True by (simp add: rp Inr Let_def)
      from Cons.IH [OF r1 this] True show ?thesis
        unfolding att by (simp add: rp2 Inr Let_def)
    next
      case False
      obtain cx acc tables2 stats2 w2 where cl:
        "candidate_loop e1 a fl (Suc 0) t_all 0 tables ?s1 w1 = (cx, acc, tables2, stats2, w2)"
        by (cases "candidate_loop e1 a fl (Suc 0) t_all 0 tables ?s1 w1") auto
      from candidate_loop_rel [OF e r1 cl] obtain v2 where
        cl2: "candidate_loop e2 a fl (Suc 0) t_all 0 tables ?s1 v1 = (cx, acc, tables2, stats2, v2)"
        and r2: "R w2 v2" by blast
      show ?thesis
      proof (cases cx)
        case (Some ex)
        from Cons.prems(2) have "x = Some ex" "tables' = tables2" "stats' = stats2" "w' = w2"
          unfolding att using False by (simp_all add: rp Inr Let_def cl Some)
        with r2 False show ?thesis unfolding att by (simp add: rp2 Inr Let_def cl2 Some)
      next
        case None
        show ?thesis
        proof (cases "acc = 0")
          case True
          from Cons.prems(2) have "attempt_loop e1 a rest tables2 stats2 w2 = (x, tables', stats', w')"
            unfolding att using False True by (simp add: rp Inr Let_def cl None)
          from Cons.IH [OF r2 this] False True show ?thesis
            unfolding att by (simp add: rp2 Inr Let_def cl2 None)
        next
          case False2: False
          from Cons.prems(2) have "x = None" "tables' = tables2"
            "stats' = stats2\<lparr>ts_found := ts_found stats2 + acc\<rparr>" "w' = w2"
            unfolding att using False False2 by (simp_all add: rp Inr Let_def cl None)
          with r2 False False2 show ?thesis unfolding att by (simp add: rp2 Inr Let_def cl2 None)
        qed
      qed
    qed
  qed
qed

lemma extract_tables_for_page_rel:
  assumes e: "table_env_rel R e1 e2" and r: "R w v"
  shows "fst (extract_tables_for_page e1 a w) = fst (extract_tables_for_page e2 a v) \<and>
         R (snd (extract_tables_for_page e1 a w)) (snd (extract_tables_for_page e2 a v))"
proof -
  let ?s0 = "\<lparr>ts_page = ta_pno a, ts_tried = [], ts_found = 0, ts_saved_csv = 0,
               ts_error = None, ts_attempts = []\<rparr>"
  obtain x tables stats1 w1 where l:
    "attempt_loop e1 a (attempts_of a) [] ?s0 w = (x, tables, stats1, w1)"
    by (cases "attempt_loop e1 a (attempts_of a) [] ?s0 w") auto
  from attempt_loop_rel [OF e r l] obtain v1 where
    l2: "attempt_loop e2 a (attempts_of a) [] ?s0 v = (x, tables, stats1, v1)" and r1: "R w1 v1"
    by blast
  show ?thesis
    unfolding extract_tables_for_page_def extract_tables_with_def
    using r1 by (simp add: l l2 Let_def)
qed












text \<open>Recording the calls changes neither the results nor the underlying world.\<close>

lemma recording_rel: "table_env_rel (\<lambda>w v. w = fst v) env (recording env)"
  by (simp add: table_env_rel_def recording_def split: prod.splits)

lemma recording_same:
  "fst (extract_tables_for_page (recording env) a (w, lg)) = fst (extract_tables_for_page env a w)"
  using extract_tables_for_page_rel [OF recording_rel, of w "(w, lg)" env a] by simp

section \<open>Properties of the table orchestrator\<close>

subsection \<open>The candidate loop\<close>

lemma recording_read_pdf:
  "read_pdf (recording env) (w, lg) p kw =
     (fst (read_pdf env w p kw), (snd (read_pdf env w p kw), lg @ [ReadPdf p kw (fst (read_pdf env w p kw))]))"
  by (simp add: recording_def split: prod.splits)

lemma recording_to_csv:
  "to_csv (recording env) (w, lg) t p =
     (fst (to_csv env w t p), (snd (to_csv env w t p), lg @ [ToCsv t p (fst (to_csv env w t p))]))"
  by (simp add: recording_def split: prod.splits)

lemma read_calls_append: "read_calls (xs @ ys) = read_calls xs @ read_calls ys"
  by (induction xs rule: read_calls.induct) simp_all

lemma cand_post_skip:
  "\<not> accepted t \<Longrightarrow> cand_post a fl (Suc i) ts acc tables stats exn acc' tables' stats' \<Longrightarrow>
   cand_post a fl i (t # ts) acc tables stats exn acc' tables' stats'"
  unfolding cand_post_def by (auto simp: list_all_iff)

lemma cand_post_fail:
  "accepted t \<Longrightarrow> cand_post a fl i (t # ts) acc tables stats (Some e) acc tables stats"
  unfolding cand_post_def by simp

lemma cand_post_take:
  assumes t: "accepted t"
    and st: "ts_tried stats1 = ts_tried stats" "ts_found stats1 = ts_found stats"
      "ts_error stats1 = ts_error stats" "ts_page stats1 = ts_page stats"
    and p: "cand_post a fl (Suc i) ts (Suc acc) (tables @ [mk_record a fl i t csv]) stats1
              exn acc' tables' stats'"
  shows "cand_post a fl i (t # ts) acc tables stats exn acc' tables' stats'"
proof -
  from p obtain recs where r: "tables' = (tables @ [mk_record a fl i t csv]) @ recs"
      "list_all (sourced_from a fl (Suc i) ts) recs" "acc' = Suc acc + length recs"
      "exn = None \<longrightarrow> length recs = length (filter accepted ts)"
      "exn \<noteq> None \<longrightarrow> list_ex accepted ts"
    and s: "ts_tried stats' = ts_tried stats1" "ts_found stats' = ts_found stats1"
      "ts_error stats' = ts_error stats1" "ts_page stats' = ts_page stats1"
    unfolding cand_post_def by blast
  have m: "sourced_from a fl i (t # ts) (mk_record a fl i t csv)"
    using t by (simp add: mk_record_def)
  have "list_all (sourced_from a fl i (t # ts)) (mk_record a fl i t csv # recs)"
    using m r(2) by (simp add: list_all_iff)
  moreover have "tables' = tables @ (mk_record a fl i t csv # recs)" using r(1) by simp
  moreover have "acc' = acc + length (mk_record a fl i t csv # recs)" using r(3) by simp
  moreover have "exn = None \<longrightarrow> length (mk_record a fl i t csv # recs) = length (filter accepted (t # ts))"
    using r(4) t by simp
  moreover have "exn \<noteq> None \<longrightarrow> list_ex accepted (t # ts)" using t by simp
  ultimately show ?thesis
    unfolding cand_post_def using s st by metis
qed

lemma candidate_loop_post:
  "candidate_loop env a fl i ts acc tables stats w = (exn, acc', tables', stats', w') \<Longrightarrow>
   cand_post a fl i ts acc tables stats exn acc' tables' stats'"
proof (induction ts arbitrary: i acc tables stats w)
  case Nil
  then show ?case by (simp add: cand_post_def)
next
  case (Cons t ts)
  show ?case
  proof (cases "accepted t")
    case False
    with Cons.prems have "candidate_loop env a fl (Suc i) ts acc tables stats w = (exn, acc', tables', stats', w')"
      by simp
    from cand_post_skip [OF False Cons.IH [OF this]] show ?thesis .
  next
    case True
    show ?thesis
    proof (cases "save_csv a")
      case False
      with True Cons.prems have "candidate_loop env a fl (Suc i) ts (Suc acc)
          (tables @ [mk_record a fl i t None]) stats w = (exn, acc', tables', stats', w')"
        by simp
      from cand_post_take [OF True _ _ _ _ Cons.IH [OF this]] show ?thesis by simp
    next
      case csv: True
      let ?p = "CsvPath (workdir a) (ta_stem a) (ta_pno a) i fl"
      obtain r w1 where c: "to_csv env w t ?p = (r, w1)"
        by (cases "to_csv env w t ?p") auto
      show ?thesis
      proof (cases r)
        case (Some e)
        with True csv c Cons.prems have "exn = Some e" "acc' = acc" "tables' = tables" "stats' = stats"
          by (simp_all add: Let_def)
        with cand_post_fail [OF True] show ?thesis by simp
      next
        case None
        let ?s = "stats\<lparr>ts_saved_csv := ts_saved_csv stats + 1\<rparr>"
        from None True csv c Cons.prems have "candidate_loop env a fl (Suc i) ts (Suc acc)
          (tables @ [mk_record a fl i t (Some ?p)]) ?s w1 = (exn, acc', tables', stats', w')"
          by (simp add: Let_def)
        from cand_post_take [OF True _ _ _ _ Cons.IH [OF this]] show ?thesis by simp
      qed
    qed
  qed
qed

lemma candidate_loop_log:
  "candidate_loop (recording env) a fl i ts acc tables stats (w, lg) =
     (exn, acc', tables', stats', (w', lg')) \<Longrightarrow> read_calls lg' = read_calls lg"
proof (induction ts arbitrary: i acc tables stats w lg)
  case Nil
  then show ?case by simp
next
  case (Cons t ts)
  show ?case
  proof (cases "accepted t")
    case False
    with Cons.prems have "candidate_loop (recording env) a fl (Suc i) ts acc tables stats (w, lg) =
        (exn, acc', tables', stats', (w', lg'))"
      by simp
    from Cons.IH [OF this] show ?thesis .
  next
    case True
    show ?thesis
    proof (cases "save_csv a")
      case False
      with True Cons.prems have "candidate_loop (recording env) a fl (Suc i) ts (Suc acc)
          (tables @ [mk_record a fl i t None]) stats (w, lg) = (exn, acc', tables', stats', (w', lg'))"
        by simp
      from Cons.IH [OF this] show ?thesis .
    next
      case csv: True
      let ?p = "CsvPath (workdir a) (ta_stem a) (ta_pno a) i fl"
      obtain r w1 where c: "to_csv env w t ?p = (r, w1)"
        by (cases "to_csv env w t ?p") auto
      have rc: "to_csv (recording env) (w, lg) t ?p = (r, (w1, lg @ [ToCsv t ?p r]))"
        by (simp add: recording_to_csv c)
      show ?thesis
      proof (cases r)
        case (Some e)
        with True csv rc Cons.prems have "lg' = lg @ [ToCsv t ?p r]"
          by (auto simp: Let_def)
        then show ?thesis by (simp add: read_calls_append)
      next
        case None
        let ?s = "stats\<lparr>ts_saved_csv := ts_saved_csv stats + 1\<rparr>"
        from None True csv rc Cons.prems have "candidate_loop (recording env) a fl (Suc i) ts (Suc acc)
          (tables @ [mk_record a fl i t (Some ?p)]) ?s (w1, lg @ [ToCsv t ?p r]) =
          (exn, acc', tables', stats', (w', lg'))"
          by (simp add: Let_def)
        from Cons.IH [OF this] show ?thesis by (simp add: read_calls_append)
      qed
    qed
  qed
qed

subsection \<open>The attempt loop\<close>

lemma trace_post_single:
  "ts_tried stats' = ts_tried stats @ [(fl, d)] \<Longrightarrow> ts_error stats' = ts_error stats \<Longrightarrow>
   ts_page stats' = ts_page stats \<Longrightarrow>
   trace_post ((fl, d, kw) # rest) stats [(kw, r)] stats'"
  by (simp add: trace_post_def kw_of_def tried_of_def)

lemma trace_post_cons:
  assumes q: "quiet r"
    and s: "ts_tried stats1 = ts_tried stats @ [(fl, d)]" "ts_error stats1 = ts_error stats"
      "ts_page stats1 = ts_page stats"
    and p: "trace_post rest stats1 new stats'"
  shows "trace_post ((fl, d, kw) # rest) stats ((kw, r) # new) stats'"
proof -
  have b: "list_all quiet (butlast (map snd ((kw, r) # new)))"
    using q p by (cases new) (simp_all add: trace_post_def)
  show ?thesis
    using p s b unfolding trace_post_def by (simp add: kw_of_def tried_of_def)
qed

lemma outcome_post_raise:
  "outcome_post a atts tables stats [(kw, Inl e)] (Some e) tables stats'' = (ts_found stats'' = ts_found stats)"
  by (simp add: outcome_post_def quiet_def)

lemma outcome_post_cons:
  assumes q: "quiet r"
    and p: "outcome_post a rest tables stats1 new exn tables' stats'"
    and f: "ts_found stats1 = ts_found stats"
  shows "outcome_post a (att # rest) tables stats ((kw, r) # new) exn tables' stats'"
proof (cases "list_all quiet (map snd new)")
  case True
  with p q show ?thesis unfolding outcome_post_def f [symmetric] by simp
next
  case False
  then have ne: "new \<noteq> []" by auto
  with False p q show ?thesis unfolding outcome_post_def f [symmetric] by simp
qed

lemma filter_accepted_empty: "length (filter accepted ts) = 0 \<longleftrightarrow> \<not> list_ex accepted ts"
  by (simp add: list_ex_iff filter_empty_conv)

lemma attempt_loop_post:
  "attempt_loop (recording env) a atts tables stats (w, lg) = (exn, tables', stats', (w', lg')) \<Longrightarrow>
   \<exists>new. read_calls lg' = read_calls lg @ new \<and> trace_post atts stats new stats' \<and>
         outcome_post a atts tables stats new exn tables' stats'"
proof (induction atts arbitrary: tables stats w lg)
  case Nil
  then have "read_calls lg' = read_calls lg @ []" "trace_post [] stats [] stats'"
    "outcome_post a [] tables stats [] exn tables' stats'"
    by (simp_all add: trace_post_def outcome_post_def)
  then show ?case by blast
next
  case (Cons att rest)
  obtain fl d kw where att: "att = (fl, d, kw)" by (cases att) auto
  let ?s1 = "stats\<lparr>ts_tried := ts_tried stats @ [(fl, d)]\<rparr>"
  obtain r w1 where rp: "read_pdf env w (pdf_path a) kw = (r, w1)"
    by (cases "read_pdf env w (pdf_path a) kw") auto
  let ?lg1 = "lg @ [ReadPdf (pdf_path a) kw r]"
  have rrp: "read_pdf (recording env) (w, lg) (pdf_path a) kw = (r, (w1, ?lg1))"
    by (simp add: recording_read_pdf rp)
  have rc1: "read_calls ?lg1 = read_calls lg @ [(kw, r)]"
    by (simp add: read_calls_append)
  have s1: "ts_tried ?s1 = ts_tried stats @ [(fl, d)]" "ts_error ?s1 = ts_error stats"
    "ts_page ?s1 = ts_page stats" "ts_found ?s1 = ts_found stats"
    by simp_all
  show ?case
  proof (cases r)
    case (Inl e)
    from Cons.prems have res: "exn = Some e" "tables' = tables" "stats' = ?s1" "lg' = ?lg1"
      unfolding att by (simp_all add: rrp Inl Let_def)
    have "trace_post (att # rest) stats [(kw, r)] stats'"
      unfolding att res by (rule trace_post_single) simp_all
    moreover have "outcome_post a (att # rest) tables stats [(kw, r)] exn tables' stats'"
      unfolding res Inl by (simp add: outcome_post_raise)
    moreover have "read_calls lg' = read_calls lg @ [(kw, r)]"
      unfolding res by (rule rc1)
    ultimately show ?thesis by blast
  next
    case (Inr t_all)
    show ?thesis
    proof (cases "length t_all = 0")
      case True
      then have q: "quiet r" by (simp add: quiet_def Inr)
      from Cons.prems have "attempt_loop (recording env) a rest tables ?s1 (w1, ?lg1) =
          (exn, tables', stats', (w', lg'))"
        unfolding att using True by (simp add: rrp Inr Let_def)
      from Cons.IH [OF this] obtain new where n: "read_calls lg' = read_calls ?lg1 @ new"
        "trace_post rest ?s1 new stats'" "outcome_post a rest tables ?s1 new exn tables' stats'"
        by blast
      have "read_calls lg' = read_calls lg @ ((kw, r) # new)"
        using n(1) rc1 by simp
      moreover have "trace_post (att # rest) stats ((kw, r) # new) stats'"
        unfolding att using q s1(1-3) n(2) by (rule trace_post_cons)
      moreover have "outcome_post a (att # rest) tables stats ((kw, r) # new) exn tables' stats'"
        using q n(3) s1(4) by (rule outcome_post_cons)
      ultimately show ?thesis by blast
    next
      case False
      obtain cexn acc tables2 stats2 w2 lg2 where cl:
        "candidate_loop (recording env) a fl 1 t_all 0 tables ?s1 (w1, ?lg1) =
           (cexn, acc, tables2, stats2, (w2, lg2))"
        by (cases "candidate_loop (recording env) a fl 1 t_all 0 tables ?s1 (w1, ?lg1)") auto
      from candidate_loop_log [OF cl] have lg2: "read_calls lg2 = read_calls lg @ [(kw, r)]"
        using rc1 by simp
      from candidate_loop_post [OF cl] obtain recs where cp:
        "ts_tried stats2 = ts_tried ?s1" "ts_found stats2 = ts_found ?s1"
        "ts_error stats2 = ts_error ?s1" "ts_page stats2 = ts_page ?s1"
        "tables2 = tables @ recs" "list_all (sourced_from a fl 1 t_all) recs"
        "acc = 0 + length recs" "cexn = None \<longrightarrow> length recs = length (filter accepted t_all)"
        "cexn \<noteq> None \<longrightarrow> list_ex accepted t_all"
        unfolding cand_post_def by blast
      have st2: "ts_tried stats2 = ts_tried stats @ [(fl, d)]" "ts_error stats2 = ts_error stats"
        "ts_page stats2 = ts_page stats" "ts_found stats2 = ts_found stats"
        using cp(1-4) by simp_all
      show ?thesis
      proof (cases cexn)
        case (Some e)
        from Cons.prems have res: "exn = Some e" "tables' = tables2" "stats' = stats2" "lg' = lg2"
          unfolding att using False by (simp_all add: rrp Inr Let_def cl [unfolded One_nat_def Inr] Some)
        have nq: "\<not> quiet r" using cp(9) Some by (simp add: quiet_def Inr)
        have "trace_post (att # rest) stats [(kw, r)] stats'"
          unfolding att res using st2(1-3) by (rule trace_post_single)
        moreover have "outcome_post a (att # rest) tables stats [(kw, r)] exn tables' stats'"
          unfolding outcome_post_def using nq cp(5,6) st2(4) res Inr by auto
        moreover have "read_calls lg' = read_calls lg @ [(kw, r)]"
          unfolding res by (rule lg2)
        ultimately show ?thesis by blast
      next
        case None
        show ?thesis
        proof (cases "acc = 0")
          case True
          then have "recs = []" using cp(7) by simp
          then have t2: "tables2 = tables" and q: "quiet r"
            using cp(5) cp(8) None by (simp_all add: quiet_def Inr list_ex_iff filter_empty_conv)
          from Cons.prems have "attempt_loop (recording env) a rest tables stats2 (w2, lg2) =
              (exn, tables', stats', (w', lg'))"
            unfolding att using False True by (simp add: rrp Inr Let_def cl [unfolded One_nat_def Inr] None t2)
          from Cons.IH [OF this] obtain new where n: "read_calls lg' = read_calls lg2 @ new"
            "trace_post rest stats2 new stats'" "outcome_post a rest tables stats2 new exn tables' stats'"
            by blast
          have "read_calls lg' = read_calls lg @ ((kw, r) # new)"
            using n(1) lg2 by simp
          moreover have "trace_post (att # rest) stats ((kw, r) # new) stats'"
            unfolding att using q st2(1-3) n(2) by (rule trace_post_cons)
          moreover have "outcome_post a (att # rest) tables stats ((kw, r) # new) exn tables' stats'"
            using q n(3) st2(4) by (rule outcome_post_cons)
          ultimately show ?thesis by blast
        next
          case False2: False
          let ?s3 = "stats2\<lparr>ts_found := ts_found stats2 + acc\<rparr>"
          from Cons.prems have res: "exn = None" "tables' = tables2" "stats' = ?s3" "lg' = lg2"
            unfolding att using False False2 by (simp_all add: rrp Inr Let_def cl [unfolded One_nat_def Inr] None)
          have rn: "recs \<noteq> []" using False2 cp(7) by auto
          have len: "length recs = length (filter accepted t_all)" using cp(8) None by simp
          have "filter accepted t_all \<noteq> []" using rn len by auto
          then have nq: "\<not> quiet r" by (simp add: quiet_def Inr list_ex_iff filter_empty_conv)
          have "trace_post (att # rest) stats [(kw, r)] stats'"
            unfolding att res by (rule trace_post_single) (simp_all add: st2)
          moreover have "outcome_post a (att # rest) tables stats [(kw, r)] exn tables' stats'"
            unfolding outcome_post_def using nq cp(5,6,7) st2(4) res Inr rn len by auto
          moreover have "read_calls lg' = read_calls lg @ [(kw, r)]"
            unfolding res by (rule lg2)
          ultimately show ?thesis by blast
        qed
      qed
    qed
  qed
qed

subsection \<open>The whole function and its engine calls\<close>

text \<open>
  The statements below are about a run under \<open>recording env\<close>, which is \<open>env\<close> with a log
  of the calls; \<open>read_calls\<close> of the final log lists the engine calls of the run in order.
  The tables and stats of that run are those of the run under \<open>env\<close> itself, which each
  statement repeats.
\<close>

lemma extract_tables_with_unfold:
  assumes l: "attempt_loop env a atts [] (stats0 a) w = (exn, tables, stats1, w1)"
    and e: "ts_error stats1 = None"
  shows "extract_tables_with env a atts w =
           ((tables, stats1\<lparr>ts_error := final_error exn (ts_found stats1)\<rparr>), w1)"
proof (cases exn)
  case None
  then show ?thesis
    using e unfolding extract_tables_with_def stats0_def [symmetric]
    by (cases stats1) (simp add: l Let_def error_unset_def final_error_def)
next
  case (Some x)
  then show ?thesis
    unfolding extract_tables_with_def stats0_def [symmetric]
    by (simp add: l Let_def error_unset_def final_error_def)
qed

lemma extract_tables_with_post:
  assumes run: "extract_tables_with (recording env) a atts (w, lg0) = ((tables, stats), (w', lg))"
  shows "\<exists>new exn stats1. read_calls lg = read_calls lg0 @ new \<and>
           trace_post atts (stats0 a) new stats1 \<and>
           outcome_post a atts [] (stats0 a) new exn tables stats1 \<and>
           ts_tried stats = ts_tried stats1 \<and> ts_found stats = ts_found stats1 \<and>
           ts_error stats = final_error exn (ts_found stats1)"
proof -
  obtain exn tables1 stats1 w1 lg1 where l:
    "attempt_loop (recording env) a atts [] (stats0 a) (w, lg0) = (exn, tables1, stats1, (w1, lg1))"
    by (cases "attempt_loop (recording env) a atts [] (stats0 a) (w, lg0)") auto
  from attempt_loop_post [OF l] obtain new where n: "read_calls lg1 = read_calls lg0 @ new"
    "trace_post atts (stats0 a) new stats1" "outcome_post a atts [] (stats0 a) new exn tables1 stats1"
    by blast
  have e: "ts_error stats1 = None" using n(2) by (simp add: trace_post_def stats0_def)
  from extract_tables_with_unfold [OF l e] run
  have "tables = tables1" "stats = stats1\<lparr>ts_error := final_error exn (ts_found stats1)\<rparr>" "lg = lg1"
    by simp_all
  with n show ?thesis by auto
qed


lemma accepted_iff:
  "accepted t \<longleftrightarrow> 2 \<le> fst (shape t) \<and> 2 \<le> snd (shape t) \<and> list_ex is_digit (content t)"
  by (auto simp: accepted_def)

lemma mk_record_fields:
  "r = mk_record a fl i t csv \<Longrightarrow>
   tr_index r = i \<and> tr_nrows r = fst (shape t) \<and> tr_ncols r = snd (shape t) \<and> tr_flavor r = fl"
  by (simp add: mk_record_def)

lemma sourced_from_index:
  "sourced_from a fl i ts r \<Longrightarrow>
   \<exists>k<length ts. accepted (ts ! k) \<and> tr_index r = i + k \<and>
     tr_nrows r = fst (shape (ts ! k)) \<and> tr_ncols r = snd (shape (ts ! k))"
proof (induction ts arbitrary: i)
  case Nil
  then show ?case by simp
next
  case (Cons t ts)
  from Cons.prems consider (here) "accepted t" "r = mk_record a fl i t (tr_csv_path r)"
    | (later) "sourced_from a fl (Suc i) ts r"
    by auto
  then show ?case
  proof cases
    case here
    from mk_record_fields [OF here(2)] here(1)
    have "accepted ((t # ts) ! 0) \<and> tr_index r = i + 0 \<and>
      tr_nrows r = fst (shape ((t # ts) ! 0)) \<and> tr_ncols r = snd (shape ((t # ts) ! 0))"
      by simp
    then show ?thesis by blast
  next
    case later
    from Cons.IH [OF later] obtain k where k: "k < length ts" "accepted (ts ! k)"
      "tr_index r = Suc i + k" "tr_nrows r = fst (shape (ts ! k))" "tr_ncols r = snd (shape (ts ! k))"
      by blast
    then have "Suc k < length (t # ts) \<and> accepted ((t # ts) ! Suc k) \<and> tr_index r = i + Suc k \<and>
      tr_nrows r = fst (shape ((t # ts) ! Suc k)) \<and> tr_ncols r = snd (shape ((t # ts) ! Suc k))"
      by simp
    then show ?thesis by blast
  qed
qed

lemma sourced_from_has_source:
  assumes s: "sourced_from a fl 1 ts r" and c: "(kw, Inr ts) \<in> set calls"
  shows "2 \<le> tr_nrows r \<and> 2 \<le> tr_ncols r \<and> has_source calls r"
proof -
  from sourced_from_index [OF s] obtain k where k: "k < length ts" "accepted (ts ! k)"
    "tr_index r = 1 + k" "tr_nrows r = fst (shape (ts ! k))" "tr_ncols r = snd (shape (ts ! k))"
    by blast
  have i: "tr_index r - 1 = k" "1 \<le> tr_index r" "tr_index r \<le> length ts"
    using k(1,3) by simp_all
  have "has_source calls r"
    unfolding has_source_def list_ex_iff
    using c i k(2,4,5) by (intro bexI [of _ "(kw, Inr ts)"]) (simp_all add: accepted_iff list_ex_iff)
  then show ?thesis using k(2,4,5) by (simp add: accepted_iff)
qed

lemma not_all_quiet_last:
  assumes b: "list_all quiet (butlast (map snd new))" and n: "\<not> list_all quiet (map snd new)"
  shows "new \<noteq> [] \<and> \<not> quiet (snd (last new)) \<and> last new \<in> set new"
proof -
  from n have ne: "new \<noteq> []" by auto
  then have "map snd new \<noteq> []" by simp
  then have "map snd new = butlast (map snd new) @ [last (map snd new)]"
    by simp
  then have "map snd new = butlast (map snd new) @ [snd (last new)]"
    using ne by (simp add: last_map)
  then have "list_all quiet (map snd new) \<longleftrightarrow>
      list_all quiet (butlast (map snd new)) \<and> quiet (snd (last new))"
    by (metis list_all_append list.pred_inject(2) list.pred_inject(1))
  with n b have "\<not> quiet (snd (last new))" by simp
  with ne show ?thesis by simp
qed

lemma non_quiet_is_last:
  assumes b: "list_all quiet (butlast (map snd new))" and m: "c \<in> set new" and q: "\<not> quiet (snd c)"
  shows "last new = c"
proof -
  from m have ne: "new \<noteq> []" by auto
  then have sp: "new = butlast new @ [last new]" by simp
  have "c \<notin> set (butlast new)"
  proof
    assume "c \<in> set (butlast new)"
    then have "snd c \<in> set (butlast (map snd new))" by (simp add: map_butlast [symmetric])
    with b q show False by (simp add: list_all_iff)
  qed
  with m sp show ?thesis by (metis Un_iff empty_iff empty_set set_ConsD set_append)
qed

lemma tables_run_facts:
  assumes run: "extract_tables_for_page (recording env) a (w, []) = ((tables, stats), (w', lg))"
  shows "\<exists>exn stats1. trace_post (attempts_of a) (stats0 a) (read_calls lg) stats1 \<and>
           outcome_post a (attempts_of a) [] (stats0 a) (read_calls lg) exn tables stats1 \<and>
           ts_tried stats = ts_tried stats1 \<and> ts_found stats = ts_found stats1 \<and>
           ts_error stats = final_error exn (ts_found stats1)"
  using extract_tables_with_post [OF run [unfolded extract_tables_for_page_def]] by auto

lemma demo_attempts: "attempts_of demo_args = no_area_attempts 3"
  by (simp add: attempts_of_def demo_args_def build_attempts_def first_caption_def)

lemma demo_tables_run_eq:
  "demo_tables_run =
   (([mk_record demo_args ''stream'' 1 grid (Some (CsvPath ''work'' ''paper'' 3 1 ''stream'')),
      mk_record demo_args ''stream'' 4 grid (Some (CsvPath ''work'' ''paper'' 3 4 ''stream''))],
     \<lparr>ts_page = 3, ts_tried = map tried_of (no_area_attempts 3),
      ts_found = 2, ts_saved_csv = 2, ts_error = None, ts_attempts = []\<rparr>),
    4, [ReadPdf ''paper.pdf'' (lattice_kwargs 3 None) (Inr []),
        ReadPdf ''paper.pdf'' (stream_kwargs 3 None) (Inr [grid, prose, column, grid]),
        ToCsv grid (CsvPath ''work'' ''paper'' 3 1 ''stream'') None,
        ToCsv grid (CsvPath ''work'' ''paper'' 3 4 ''stream'') None])"
  unfolding demo_tables_run_def by code_simp

lemma raising_run_eq:
  "raising_run =
   (([], \<lparr>ts_page = 3, ts_tried = [(''lattice'', NoAreaDesc ''line_scale=40'')],
      ts_found = 0, ts_saved_csv = 0,
      ts_error = Some ''Camelot failed/skipped: RuntimeError()'', ts_attempts = []\<rparr>),
    1, [ReadPdf ''paper.pdf'' (lattice_kwargs 3 None) (Inl ''RuntimeError()'')])"
  unfolding raising_run_def by code_simp

lemma empty_run_eq:
  "empty_run =
   (([], \<lparr>ts_page = 3, ts_tried = map tried_of (no_area_attempts 3),
      ts_found = 0, ts_saved_csv = 0,
      ts_error = Some ''no tables detected on this page'', ts_attempts = []\<rparr>),
    2, [ReadPdf ''paper.pdf'' (lattice_kwargs 3 None) (Inr [prose]),
        ReadPdf ''paper.pdf'' (stream_kwargs 3 None) (Inr [prose])])"
  unfolding empty_run_def by code_simp

lemma csv_fail_run_eq:
  "extract_tables_for_page csv_fail_engine demo_args 0 =
   (([mk_record demo_args ''lattice'' 1 grid (Some (CsvPath ''work'' ''paper'' 3 1 ''lattice''))],
     \<lparr>ts_page = 3, ts_tried = [(''lattice'', NoAreaDesc ''line_scale=40'')],
      ts_found = 0, ts_saved_csv = 1,
      ts_error = Some ''Camelot failed/skipped: OSError()'', ts_attempts = []\<rparr>),
    3)"
  by code_simp


lemma demo_tables_run_split:
  "extract_tables_for_page (recording demo_engine) demo_args (0, []) =
     ((fst (fst demo_tables_run), snd (fst demo_tables_run)),
      (fst (snd demo_tables_run), snd (snd demo_tables_run)))"
  by (simp add: demo_tables_run_def)

lemma raising_run_split:
  "extract_tables_for_page (recording raising_engine) demo_args (0, []) =
     ((fst (fst raising_run), snd (fst raising_run)),
      (fst (snd raising_run), snd (snd raising_run)))"
  by (simp add: raising_run_def)

lemma empty_run_split:
  "extract_tables_for_page (recording empty_engine) demo_args (0, []) =
     ((fst (fst empty_run), snd (fst empty_run)),
      (fst (snd empty_run), snd (snd empty_run)))"
  by (simp add: empty_run_def)

lemma demo_calls:
  "read_calls (snd (snd demo_tables_run)) =
     [(lattice_kwargs 3 None, Inr []), (stream_kwargs 3 None, Inr [grid, prose, column, grid])]"
  by (simp add: demo_tables_run_eq)

text \<open>
  C6: the engine is called on an initial segment of the attempt list, in order, and
  \<^verbatim>\<open>stats["tried"]\<close> lists exactly those attempts; every call but the last returned no
  accepted candidate (and did not raise). So once a call has returned an accepted candidate
  the engine is not called again, and the attempts that remain are dropped.
\<close>

theorem stops_after_first_acceptance:
  assumes run: "extract_tables_for_page (recording env) a (w, []) = ((tables, stats), (w', lg))"
  shows "length (read_calls lg) \<le> length (attempts_of a) \<and>
         map fst (read_calls lg) = map kw_of (take (length (read_calls lg)) (attempts_of a)) \<and>
         ts_tried stats = map tried_of (take (length (read_calls lg)) (attempts_of a)) \<and>
         list_all quiet (butlast (map snd (read_calls lg))) \<and>
         fst (extract_tables_for_page env a w) = (tables, stats)"
proof -
  from tables_run_facts [OF run] obtain exn stats1 where
    t: "trace_post (attempts_of a) (stats0 a) (read_calls lg) stats1"
    and s: "ts_tried stats = ts_tried stats1"
    by blast
  have "fst (extract_tables_for_page env a w) = (tables, stats)"
    using recording_same [of env a w "[]"] run by simp
  with t s show ?thesis by (simp add: trace_post_def stats0_def)
qed

lemma accepting_run_eq:
  "accepting_run =
   (([mk_record demo_caption_args ''lattice'' 1 grid (Some (CsvPath ''work'' ''paper'' 3 1 ''lattice''))],
     \<lparr>ts_page = 3, ts_tried = [(''lattice'', AreaDesc (6, 498, 606, 786) ''line_scale=40'')],
      ts_found = 1, ts_saved_csv = 1, ts_error = None, ts_attempts = []\<rparr>),
    2, [ReadPdf ''paper.pdf'' (lattice_kwargs 3 (Some [(6, 498, 606, 786)])) (Inr [grid]),
        ToCsv grid (CsvPath ''work'' ''paper'' 3 1 ''lattice'') None])"
  unfolding accepting_run_def by code_simp

lemma accepting_run_split:
  "extract_tables_for_page (recording accepting_engine) demo_caption_args (0, []) =
     ((fst (fst accepting_run), snd (fst accepting_run)),
      (fst (snd accepting_run), snd (snd accepting_run)))"
  by (simp add: accepting_run_def)

lemma demo_caption_attempts_length: "length (attempts_of demo_caption_args) = 12"
  by code_simp

theorem stops_after_first_acceptance_witness:
  "length (attempts_of demo_caption_args) = 12 \<and>
   length (read_calls (snd (snd accepting_run))) = 1 \<and>
   map snd (read_calls (snd (snd accepting_run))) = [Inr [grid]] \<and>
   accepted grid \<and>
   map fst (read_calls (snd (snd accepting_run))) =
     map kw_of (take 1 (attempts_of demo_caption_args)) \<and>
   ts_tried (snd (fst accepting_run)) = map tried_of (take 1 (attempts_of demo_caption_args)) \<and>
   length (ts_tried (snd (fst accepting_run))) = 1 \<and>
   ts_found (snd (fst accepting_run)) = 1 \<and>
   fst (extract_tables_for_page accepting_engine demo_caption_args 0) = fst accepting_run"
proof -
  have c: "read_calls (snd (snd accepting_run)) =
      [(lattice_kwargs 3 (Some [(6, 498, 606, 786)]), Inr [grid])]"
    by (simp add: accepting_run_eq)
  have g: "accepted grid" by code_simp
  have f: "ts_found (snd (fst accepting_run)) = 1" "length (ts_tried (snd (fst accepting_run))) = 1"
    by (simp_all add: accepting_run_eq)
  from stops_after_first_acceptance [OF accepting_run_split] c g f demo_caption_attempts_length
  show ?thesis by simp
qed

text \<open>
  C2: every record of the returned table list has at least 2 rows and 2 columns, and it has
  a source: an engine call of the run returned candidates of which the one at the record's
  index has the record's row and column counts and a digit in its cell text.
\<close>

theorem emitted_tables_accepted:
  assumes run: "extract_tables_for_page (recording env) a (w, []) = ((tables, stats), (w', lg))"
  shows "list_all (\<lambda>r. 2 \<le> tr_nrows r \<and> 2 \<le> tr_ncols r \<and> has_source (read_calls lg) r) tables \<and>
         fst (extract_tables_for_page env a w) = (tables, stats)"
proof -
  let ?new = "read_calls lg"
  have plain: "fst (extract_tables_for_page env a w) = (tables, stats)"
    using recording_same [of env a w "[]"] run by simp
  from tables_run_facts [OF run] obtain exn stats1 where
    t: "trace_post (attempts_of a) (stats0 a) ?new stats1"
    and p: "outcome_post a (attempts_of a) [] (stats0 a) ?new exn tables stats1"
    by blast
  have "list_all (\<lambda>r. 2 \<le> tr_nrows r \<and> 2 \<le> tr_ncols r \<and> has_source ?new r) tables"
  proof (cases "list_all quiet (map snd ?new)")
    case True
    with p have "tables = []" by (simp add: outcome_post_def)
    then show ?thesis by simp
  next
    case False
    from t have b: "list_all quiet (butlast (map snd ?new))" by (simp add: trace_post_def)
    from not_all_quiet_last [OF b False] have l: "last ?new \<in> set ?new" by simp
    show ?thesis
    proof (cases "snd (last ?new)")
      case (Inl e)
      with p False have "tables = []" by (simp add: outcome_post_def)
      then show ?thesis by simp
    next
      case (Inr ts)
      with p False obtain fl where r: "list_all (sourced_from a fl 1 ts) tables"
        by (auto simp: outcome_post_def)
      have m: "(fst (last ?new), Inr ts) \<in> set ?new"
        using l Inr by (metis prod.collapse)
      show ?thesis
        unfolding list_all_iff
      proof
        fix r assume "r \<in> set tables"
        with r have "sourced_from a fl 1 ts r" by (simp add: list_all_iff)
        from sourced_from_has_source [OF this m]
        show "2 \<le> tr_nrows r \<and> 2 \<le> tr_ncols r \<and> has_source ?new r" .
      qed
    qed
  qed
  with plain show ?thesis by simp
qed

theorem emitted_tables_accepted_witness:
  "map tr_index (fst (fst demo_tables_run)) = [1, 4] \<and>
   list_all (\<lambda>r. 2 \<le> tr_nrows r \<and> 2 \<le> tr_ncols r \<and>
      has_source (read_calls (snd (snd demo_tables_run))) r) (fst (fst demo_tables_run))"
  using emitted_tables_accepted [OF demo_tables_run_split]
  by (simp add: demo_tables_run_eq mk_record_def)

text \<open>
  C8: when an engine call raises \<open>e\<close>, it is the last call, the returned table list is empty,
  nothing is counted as found, and the diagnostic is \<^verbatim>\<open>Camelot failed/skipped:\<close> followed by
  \<open>e\<close>, which is not the no-tables diagnostic; when no call raised and none returned an
  accepted candidate, every attempt was made, the table list is empty and the diagnostic is
  \<^verbatim>\<open>no tables detected on this page\<close>. The function returns in both cases.
\<close>

theorem engine_failure_recorded:
  assumes run: "extract_tables_for_page (recording env) a (w, []) = ((tables, stats), (w', lg))"
  shows "((kw, Inl e) \<in> set (read_calls lg) \<longrightarrow>
            last (read_calls lg) = (kw, Inl e) \<and> tables = [] \<and> ts_found stats = 0 \<and>
            ts_error stats = Some (''Camelot failed/skipped: '' @ e) \<and>
            ts_error stats \<noteq> Some ''no tables detected on this page'') \<and>
         (list_all quiet (map snd (read_calls lg)) \<longrightarrow>
            length (read_calls lg) = length (attempts_of a) \<and> tables = [] \<and> ts_found stats = 0 \<and>
            ts_error stats = Some ''no tables detected on this page'') \<and>
         fst (extract_tables_for_page env a w) = (tables, stats)"
proof -
  let ?new = "read_calls lg"
  have plain: "fst (extract_tables_for_page env a w) = (tables, stats)"
    using recording_same [of env a w "[]"] run by simp
  from tables_run_facts [OF run] obtain exn stats1 where
    t: "trace_post (attempts_of a) (stats0 a) ?new stats1"
    and p: "outcome_post a (attempts_of a) [] (stats0 a) ?new exn tables stats1"
    and s: "ts_found stats = ts_found stats1" "ts_error stats = final_error exn (ts_found stats1)"
    by blast
  from t have b: "list_all quiet (butlast (map snd ?new))" by (simp add: trace_post_def)
  have raised: "last ?new = (kw, Inl e) \<and> tables = [] \<and> ts_found stats = 0 \<and>
            ts_error stats = Some (''Camelot failed/skipped: '' @ e) \<and>
            ts_error stats \<noteq> Some ''no tables detected on this page''"
    if m: "(kw, Inl e) \<in> set ?new"
  proof -
    have nq: "\<not> quiet (snd (kw, Inl e))" by (simp add: quiet_def)
    from non_quiet_is_last [OF b m nq] have l: "last ?new = (kw, Inl e)" .
    have "\<exists>c\<in>set ?new. \<not> quiet (snd c)"
      using m nq by (rule bexI [rotated])
    then have "\<not> list_all quiet (map snd ?new)"
      unfolding list_all_iff by simp
    with p l have o: "exn = Some e" "tables = []" "ts_found stats1 = 0"
      by (simp_all add: outcome_post_def stats0_def)
    with s l show ?thesis by (simp add: final_error_def)
  qed
  have none: "length ?new = length (attempts_of a) \<and> tables = [] \<and> ts_found stats = 0 \<and>
            ts_error stats = Some ''no tables detected on this page''"
    if q: "list_all quiet (map snd ?new)"
  proof -
    from p q have o: "exn = None" "tables = []" "ts_found stats1 = 0" "length ?new = length (attempts_of a)"
      by (simp_all add: outcome_post_def stats0_def)
    with s show ?thesis by (simp add: final_error_def)
  qed
  from raised none plain show ?thesis by blast
qed

theorem engine_failure_recorded_witness:
  "(lattice_kwargs 3 None, Inl ''RuntimeError()'') \<in> set (read_calls (snd (snd raising_run))) \<and>
   fst (fst raising_run) = [] \<and>
   ts_error (snd (fst raising_run)) = Some ''Camelot failed/skipped: RuntimeError()'' \<and>
   list_all quiet (map snd (read_calls (snd (snd empty_run)))) \<and>
   length (read_calls (snd (snd empty_run))) = length (attempts_of demo_args) \<and>
   ts_error (snd (fst empty_run)) = Some ''no tables detected on this page''"
proof -
  have m: "(lattice_kwargs 3 None, Inl ''RuntimeError()'') \<in> set (read_calls (snd (snd raising_run)))"
    by (simp add: raising_run_eq)
  have q: "list_all quiet (map snd (read_calls (snd (snd empty_run))))"
    by (simp add: empty_run_eq quiet_def accepted_def prose_def content_def is_digit_def)
  from engine_failure_recorded [OF raising_run_split, of "lattice_kwargs 3 None" "''RuntimeError()''"]
    engine_failure_recorded [OF empty_run_split] m q
  show ?thesis by simp
qed

text \<open>
  C4, at a failing input: with \<^verbatim>\<open>save_csv\<close> on, the first attempt returns three accepted
  grids and \<^verbatim>\<open>to_csv\<close> raises on the second. The claim expects the second table without a
  path, the third table, and a count of three; the function returns the first table only,
  \<^verbatim>\<open>found = 0\<close>, the engine diagnostic \<^verbatim>\<open>Camelot failed/skipped: OSError()\<close>, and the
  second attempt is never tried.
\<close>

theorem csv_failure_aborts_extraction:
  "list_all accepted [grid, grid, grid] \<and>
   length (attempts_of demo_args) = 2 \<and>
   map tr_index (fst (fst (extract_tables_for_page csv_fail_engine demo_args 0))) = [1] \<and>
   ts_tried (snd (fst (extract_tables_for_page csv_fail_engine demo_args 0))) =
     [(''lattice'', NoAreaDesc ''line_scale=40'')] \<and>
   ts_found (snd (fst (extract_tables_for_page csv_fail_engine demo_args 0))) = 0 \<and>
   ts_error (snd (fst (extract_tables_for_page csv_fail_engine demo_args 0))) =
     Some ''Camelot failed/skipped: OSError()''"
  by (simp add: csv_fail_run_eq mk_record_def demo_attempts no_area_attempts_def
      accepted_def grid_def content_def is_digit_def)

subsection \<open>The attempt list\<close>

lemma attempts_with_caption:
  assumes c: "first_caption (page_texts a) = Some c" and p: "page a = Some (pw, ph)"
    and nz: "pw \<noteq> 0" "ph \<noteq> 0"
  shows "attempts_of a =
     concat (map (area_attempts (ta_pno a) AreaDesc) (areas_from_caption_bbox (t_bbox c) pw ph 6)) @
     concat (map (area_attempts (ta_pno a) FullDesc) [(6, 6, pw - 6, ph - 6), (6, ph - 6, pw - 6, 6)])"
  using assms by (simp add: attempts_of_def build_attempts_def dims_truthy_def)

lemma attempts_no_dims:
  assumes "page a = None \<or> (\<exists>pw ph. page a = Some (pw, ph) \<and> (pw = 0 \<or> ph = 0))"
  shows "attempts_of a = no_area_attempts (ta_pno a)"
  using assms
  by (auto simp add: attempts_of_def build_attempts_def dims_truthy_def split: option.splits)

text \<open>
  C7: with a table caption on the page and both page dimensions there and not zero, the
  attempt list has 12 entries, alternating the strategies \<^verbatim>\<open>lattice\<close> and \<^verbatim>\<open>stream\<close>: the
  first 8 are restricted, two by two, to the 4 areas of the planner for the caption (with
  pad 6), the last 4 to the 2 inset full-page rectangles \<open>(6, 6, pw - 6, ph - 6)\<close> and
  \<open>(6, ph - 6, pw - 6, 6)\<close>. When the page dimensions are unavailable (no page object, or
  a width or height of zero, which the test \<^verbatim>\<open>page_h and page_w\<close> treats alike) the list is
  the 2 attempts \<^verbatim>\<open>lattice\<close> and \<^verbatim>\<open>stream\<close> with no area restriction.
\<close>

theorem attempt_list_shape:
  "(first_caption (page_texts a) = Some c \<and> page a = Some (pw, ph) \<and> pw \<noteq> 0 \<and> ph \<noteq> 0 \<longrightarrow>
      length (attempts_of a) = 12 \<and>
      map fst (attempts_of a) =
        [''lattice'', ''stream'', ''lattice'', ''stream'', ''lattice'', ''stream'', ''lattice'',
         ''stream'', ''lattice'', ''stream'', ''lattice'', ''stream''] \<and>
      map (kw_flavor \<circ> kw_of) (attempts_of a) = map fst (attempts_of a) \<and>
      list_all (\<lambda>att. kw_pages (kw_of att) = ta_pno a) (attempts_of a) \<and>
      map (kw_table_areas \<circ> kw_of) (take 8 (attempts_of a)) =
        map (\<lambda>r. Some [r])
          (concat (map (\<lambda>r. [r, r]) (areas_from_caption_bbox (t_bbox c) pw ph 6))) \<and>
      map (kw_table_areas \<circ> kw_of) (drop 8 (attempts_of a)) =
        map (\<lambda>r. Some [r])
          [(6, 6, pw - 6, ph - 6), (6, 6, pw - 6, ph - 6),
           (6, ph - 6, pw - 6, 6), (6, ph - 6, pw - 6, 6)] \<and>
      map (fst \<circ> snd) (take 8 (attempts_of a)) =
        concat (map (\<lambda>r. [AreaDesc r ''line_scale=40'', AreaDesc r ''row_tol=8,col_tol=8''])
          (areas_from_caption_bbox (t_bbox c) pw ph 6)) \<and>
      map (fst \<circ> snd) (drop 8 (attempts_of a)) =
        concat (map (\<lambda>r. [FullDesc r ''line_scale=40'', FullDesc r ''row_tol=8,col_tol=8''])
          [(6, 6, pw - 6, ph - 6), (6, ph - 6, pw - 6, 6)]) \<and>
      length (areas_from_caption_bbox (t_bbox c) pw ph 6) = 4) \<and>
   (page a = None \<or> (\<exists>w h. page a = Some (w, h) \<and> (w = 0 \<or> h = 0)) \<longrightarrow>
      length (attempts_of a) = 2 \<and>
      map fst (attempts_of a) = [''lattice'', ''stream''] \<and>
      map (kw_flavor \<circ> kw_of) (attempts_of a) = [''lattice'', ''stream''] \<and>
      map (kw_pages \<circ> kw_of) (attempts_of a) = [ta_pno a, ta_pno a] \<and>
      map (kw_table_areas \<circ> kw_of) (attempts_of a) = [None, None] \<and>
      map (fst \<circ> snd) (attempts_of a) = [NoAreaDesc ''line_scale=40'', NoAreaDesc ''row/col tol''])"
proof -
  have one: "length (attempts_of a) = 12 \<and>
      map fst (attempts_of a) =
        [''lattice'', ''stream'', ''lattice'', ''stream'', ''lattice'', ''stream'', ''lattice'',
         ''stream'', ''lattice'', ''stream'', ''lattice'', ''stream''] \<and>
      map (kw_flavor \<circ> kw_of) (attempts_of a) = map fst (attempts_of a) \<and>
      list_all (\<lambda>att. kw_pages (kw_of att) = ta_pno a) (attempts_of a) \<and>
      map (kw_table_areas \<circ> kw_of) (take 8 (attempts_of a)) =
        map (\<lambda>r. Some [r])
          (concat (map (\<lambda>r. [r, r]) (areas_from_caption_bbox (t_bbox c) pw ph 6))) \<and>
      map (kw_table_areas \<circ> kw_of) (drop 8 (attempts_of a)) =
        map (\<lambda>r. Some [r])
          [(6, 6, pw - 6, ph - 6), (6, 6, pw - 6, ph - 6),
           (6, ph - 6, pw - 6, 6), (6, ph - 6, pw - 6, 6)] \<and>
      map (fst \<circ> snd) (take 8 (attempts_of a)) =
        concat (map (\<lambda>r. [AreaDesc r ''line_scale=40'', AreaDesc r ''row_tol=8,col_tol=8''])
          (areas_from_caption_bbox (t_bbox c) pw ph 6)) \<and>
      map (fst \<circ> snd) (drop 8 (attempts_of a)) =
        concat (map (\<lambda>r. [FullDesc r ''line_scale=40'', FullDesc r ''row_tol=8,col_tol=8''])
          [(6, 6, pw - 6, ph - 6), (6, ph - 6, pw - 6, 6)]) \<and>
      length (areas_from_caption_bbox (t_bbox c) pw ph 6) = 4"
    if h: "first_caption (page_texts a) = Some c \<and> page a = Some (pw, ph) \<and> pw \<noteq> 0 \<and> ph \<noteq> 0"
  proof -
    obtain x0 y0 x1 y1 where b: "t_bbox c = (x0, y0, x1, y1)" by (cases "t_bbox c") auto
    from h have "attempts_of a =
       concat (map (area_attempts (ta_pno a) AreaDesc) (areas_from_caption_bbox (t_bbox c) pw ph 6)) @
       concat (map (area_attempts (ta_pno a) FullDesc) [(6, 6, pw - 6, ph - 6), (6, ph - 6, pw - 6, 6)])"
      by (intro attempts_with_caption) simp_all
    then show ?thesis
      unfolding b areas_explicit
      by (simp add: area_attempts_def kw_of_def lattice_kwargs_def stream_kwargs_def)
  qed
  have two: "length (attempts_of a) = 2 \<and>
      map fst (attempts_of a) = [''lattice'', ''stream''] \<and>
      map (kw_flavor \<circ> kw_of) (attempts_of a) = [''lattice'', ''stream''] \<and>
      map (kw_pages \<circ> kw_of) (attempts_of a) = [ta_pno a, ta_pno a] \<and>
      map (kw_table_areas \<circ> kw_of) (attempts_of a) = [None, None] \<and>
      map (fst \<circ> snd) (attempts_of a) = [NoAreaDesc ''line_scale=40'', NoAreaDesc ''row/col tol'']"
    if h: "page a = None \<or> (\<exists>w h. page a = Some (w, h) \<and> (w = 0 \<or> h = 0))"
    unfolding attempts_no_dims [OF h]
    by (simp add: no_area_attempts_def kw_of_def lattice_kwargs_def stream_kwargs_def)
  from one two show ?thesis by blast
qed

lemma demo_caption: "first_caption (page_texts demo_caption_args) =
    Some \<lparr>t_page_no = 3, t_bbox = (100, 300, 300, 320), t_text = ''Table 2: accuracy''\<rparr>"
  by code_simp

theorem attempt_list_shape_witness:
  "first_caption (page_texts demo_caption_args) =
     Some \<lparr>t_page_no = 3, t_bbox = (100, 300, 300, 320), t_text = ''Table 2: accuracy''\<rparr> \<and>
   page demo_caption_args = Some (612, 792) \<and>
   length (attempts_of demo_caption_args) = 12 \<and>
   map (kw_table_areas \<circ> kw_of) (take 8 (attempts_of demo_caption_args)) =
     map (\<lambda>r. Some [r])
       [(6, 498, 606, 786), (6, 498, 606, 786), (6, 6, 606, 294), (6, 6, 606, 294),
        (6, 6, 606, 466), (6, 6, 606, 466), (6, 326, 606, 786), (6, 326, 606, 786)] \<and>
   map (kw_table_areas \<circ> kw_of) (drop 8 (attempts_of demo_caption_args)) =
     map (\<lambda>r. Some [r])
       [(6, 6, 606, 786), (6, 6, 606, 786), (6, 786, 606, 6), (6, 786, 606, 6)] \<and>
   page demo_args = None \<and>
   length (attempts_of demo_args) = 2 \<and>
   map (kw_table_areas \<circ> kw_of) (attempts_of demo_args) = [None, None] \<and>
   page zero_width_args = Some (0, 792) \<and>
   length (attempts_of zero_width_args) = 2 \<and>
   map (kw_table_areas \<circ> kw_of) (attempts_of zero_width_args) = [None, None]"
proof -
  have p: "page demo_caption_args = Some (612, 792)" "page demo_args = None"
    "page zero_width_args = Some (0, 792)"
    by (simp_all add: demo_caption_args_def demo_args_def zero_width_args_def)
  have z: "page zero_width_args = None \<or>
      (\<exists>w h. page zero_width_args = Some (w, h) \<and> (w = 0 \<or> h = 0))"
    using p(3) by simp
  have ar: "areas_from_caption_bbox (100, 300, 300, 320) 612 792 6 =
     [(6, 498, 606, 786), (6, 6, 606, 294), (6, 6, 606, 466), (6, 326, 606, 786)]"
    by (simp add: areas_explicit)
  from attempt_list_shape [of demo_caption_args
      "\<lparr>t_page_no = 3, t_bbox = (100, 300, 300, 320), t_text = ''Table 2: accuracy''\<rparr>" 612 792]
    demo_caption p(1)
  have one: "length (attempts_of demo_caption_args) = 12 \<and>
   map (kw_table_areas \<circ> kw_of) (take 8 (attempts_of demo_caption_args)) =
     map (\<lambda>r. Some [r])
       [(6, 498, 606, 786), (6, 498, 606, 786), (6, 6, 606, 294), (6, 6, 606, 294),
        (6, 6, 606, 466), (6, 6, 606, 466), (6, 326, 606, 786), (6, 326, 606, 786)] \<and>
   map (kw_table_areas \<circ> kw_of) (drop 8 (attempts_of demo_caption_args)) =
     map (\<lambda>r. Some [r])
       [(6, 6, 606, 786), (6, 6, 606, 786), (6, 786, 606, 6), (6, 786, 606, 6)]"
    by (simp add: ar)
  from attempt_list_shape [of demo_args
      "\<lparr>t_page_no = 3, t_bbox = (100, 300, 300, 320), t_text = ''Table 2: accuracy''\<rparr>" 612 792]
    p(2)
  have two: "length (attempts_of demo_args) = 2 \<and>
    map (kw_table_areas \<circ> kw_of) (attempts_of demo_args) = [None, None]"
    by simp
  from attempt_list_shape [of zero_width_args
      "\<lparr>t_page_no = 3, t_bbox = (100, 300, 300, 320), t_text = ''Table 2: accuracy''\<rparr>" 612 792]
    z
  have three: "length (attempts_of zero_width_args) = 2 \<and>
    map (kw_table_areas \<circ> kw_of) (attempts_of zero_width_args) = [None, None]"
    by blast
  from one two three demo_caption p show ?thesis by simp
qed

section \<open>Determinism\<close>




end
